theory Spec2Isabelle
  imports Complex_Main "HOL-Library.Char_ord" "HOL-Library.List_Lexorder" "HOL-Library.Multiset"
begin

section \<open>Common data: errors, epochs, interferogram snapshots\<close>

text \<open>
  Python exceptions raised by the modelled code are values of \<open>py_error\<close>; a function
  that may raise returns \<open>py_error + 'a\<close> with \<open>Inl\<close> for the exception.
  A finite floating-point number is modelled as a real: rounding is not represented.
  Where the source can produce NaN from finite inputs (the square root of a negative
  number, the mean of an empty array), the value is an \<open>npfloat\<close>, whose arithmetic
  propagates NaN.
\<close>

datatype py_error =
    ValueError | KeyError | IndexError | TypeError | AttributeError | IOError
  | ConfigException | MPIError

datatype npfloat = NaN | Float real

fun nf_mul :: "npfloat \<Rightarrow> npfloat \<Rightarrow> npfloat" where
  "nf_mul (Float a) (Float b) = Float (a * b)"
| "nf_mul a b = NaN"

fun nf_sub :: "npfloat \<Rightarrow> npfloat \<Rightarrow> npfloat" where
  "nf_sub (Float a) (Float b) = Float (a - b)"
| "nf_sub a b = NaN"

fun nf_finite :: "npfloat \<Rightarrow> real list" where
  "nf_finite (Float a) = [a]"
| "nf_finite NaN = []"

text \<open>\<open>numpy.sqrt\<close>: NaN for a negative number.\<close>

definition np_sqrt :: "real \<Rightarrow> npfloat" where
  "np_sqrt x = (if x < 0 then NaN else Float (sqrt x))"

text \<open>A calendar date is represented by its ordinal (days), which carries the order.\<close>

type_synonym epoch = int

text \<open>
  Interferogram objects are duck-typed in the source: \<open>get_vcmt\<close> reads \<open>master\<close>
  and \<open>slave\<close>, \<open>ref_pixel_calc\<close> reads \<open>nrows\<close> and \<open>ncols\<close>, of an
  \<open>Ifg\<close> or of a \<open>PrereadIfg\<close> alike. The common fields are a base record that
  both extend.
\<close>

record ifg_base =
  master :: epoch
  slave :: epoch
  nrows :: nat
  ncols :: nat

text \<open>
  \<open>PrereadIfg\<close> as constructed in \<open>create_ifg_dict\<close> (run_pyrate.py, lines 100-107).
  A metadata dictionary is a finite map from keys to string values.
\<close>

record PrereadIfg = ifg_base +
  path :: string
  nan_fraction :: real
  time_span :: real
  metadata :: "string \<rightharpoonup> string"

text \<open>
  A pixel value is a real number or NaN (\<open>None\<close>). The \<open>Ifg\<close> class is not among
  the source files; the record holds the attributes the modelled functions read or write.
\<close>

type_synonym pixel = "real option"

record Ifg = ifg_base +
  data_path :: string
  phase_data :: "pixel list list"
  meta_data :: "string \<rightharpoonup> string"
  x_size :: real
  y_size :: real
  x_centre :: nat
  y_centre :: nat
  num_cells :: nat
  nan_converted :: bool
  mm_converted :: bool
  is_read_only :: bool
  ifg_nan_fraction :: real
  ifg_time_span :: real

definition dict_get :: "('k \<rightharpoonup> 'v) \<Rightarrow> 'k \<Rightarrow> py_error + 'v" where
  "dict_get d k = (case d k of None \<Rightarrow> Inl KeyError | Some v \<Rightarrow> Inr v)"

section \<open>vcm.py: the temporal variance-covariance matrix\<close>

text \<open>
  Modelled from the spec: \<open>pyrate.algorithm.master_slave_ids\<close> is not among the source
  files. The spec's Epoch Id Map is a "mapping from a calendar date to a small dense
  integer, built once from the concatenation of all master and slave dates across the
  interferogram stack, sorted": the distinct dates in ascending order, numbered from 0.
\<close>

definition master_slave_ids :: "epoch list \<Rightarrow> (epoch \<rightharpoonup> nat)" where
  "master_slave_ids dates =
     (let dset = sort (remdups dates) in map_of (zip dset [0..<length dset]))"

text \<open>
  The values that occur in a preread registry, and as elements of the argument of
  \<open>get_vcmt\<close>: interferogram snapshots, and the entries the master adds to the
  registry under \<open>epochlist\<close>, \<open>gt\<close>, \<open>md\<close> and \<open>wkt\<close> (run_pyrate.py, lines
  117-120). Only a snapshot has the attributes \<open>master\<close> and \<open>slave\<close>; reading them
  from another value raises AttributeError.
\<close>

datatype regval =
    Preread PrereadIfg
  | EpochList "epoch list"
  | GeoTransform "real list"
  | MetaData "string \<rightharpoonup> string"
  | Wkt string

fun getattr_master :: "regval \<Rightarrow> py_error + epoch" where
  "getattr_master (Preread p) = Inr (master p)"
| "getattr_master v = Inl AttributeError"

fun getattr_slave :: "regval \<Rightarrow> py_error + epoch" where
  "getattr_slave (Preread p) = Inr (slave p)"
| "getattr_slave v = Inl AttributeError"

text \<open>A list comprehension \<open>[f(x) for x in xs]\<close> whose body may raise.\<close>

fun comprehension :: "('a \<Rightarrow> py_error + 'b) \<Rightarrow> 'a list \<Rightarrow> py_error + 'b list" where
  "comprehension f [] = Inr []"
| "comprehension f (x # xs) =
     (case f x of Inl e \<Rightarrow> Inl e | Inr y \<Rightarrow>
      case comprehension f xs of Inl e \<Rightarrow> Inl e | Inr ys \<Rightarrow> Inr (y # ys))"

text \<open>
  The body of the double loop of \<open>get_vcmt\<close> (lines 253-260): three independent
  \<open>if\<close> statements assigning to the same cell, so a later one overrides an earlier one.
\<close>

definition vcm_pat_entry :: "nat \<Rightarrow> nat \<Rightarrow> nat \<Rightarrow> nat \<Rightarrow> real" where
  "vcm_pat_entry mas1 slv1 mas2 slv2 =
     (let c0 = 0;
          c1 = (if mas1 = mas2 \<or> slv1 = slv2 then 0.5 else c0);
          c2 = (if mas1 = slv2 \<or> slv1 = mas2 then - 0.5 else c1);
          c3 = (if mas1 = mas2 \<and> slv1 = slv2 then 1.0 else c2)
      in c3)"

text \<open>
  Lines 249 and 252: \<open>ids[ifg.master], ids[ifg.slave]\<close>, left to right.
\<close>

definition ids_of :: "(epoch \<rightharpoonup> nat) \<Rightarrow> regval \<Rightarrow> py_error + nat \<times> nat" where
  "ids_of ids ifg =
     (case getattr_master ifg of Inl e \<Rightarrow> Inl e | Inr m \<Rightarrow>
      case dict_get ids m of Inl e \<Rightarrow> Inl e | Inr mas \<Rightarrow>
      case getattr_slave ifg of Inl e \<Rightarrow> Inl e | Inr s \<Rightarrow>
      case dict_get ids s of Inl e \<Rightarrow> Inl e | Inr slv \<Rightarrow> Inr (mas, slv))"

text \<open>The inner loop over \<open>ifg2\<close> (lines 251-260), for a fixed row.\<close>

fun vcm_row :: "(epoch \<rightharpoonup> nat) \<Rightarrow> nat \<Rightarrow> nat \<Rightarrow> regval list \<Rightarrow> py_error + real list" where
  "vcm_row ids mas1 slv1 [] = Inr []"
| "vcm_row ids mas1 slv1 (ifg2 # rest) =
     (case ids_of ids ifg2 of Inl e \<Rightarrow> Inl e | Inr (mas2, slv2) \<Rightarrow>
      case vcm_row ids mas1 slv1 rest of Inl e \<Rightarrow> Inl e | Inr row \<Rightarrow>
        Inr (vcm_pat_entry mas1 slv1 mas2 slv2 # row))"

text \<open>The outer loop over \<open>ifg\<close> (lines 248-260); \<open>every\<close> is the whole stack.\<close>

fun vcm_rows :: "(epoch \<rightharpoonup> nat) \<Rightarrow> regval list \<Rightarrow> regval list \<Rightarrow> py_error + real list list" where
  "vcm_rows ids every [] = Inr []"
| "vcm_rows ids every (ifg # rest) =
     (case ids_of ids ifg of Inl e \<Rightarrow> Inl e | Inr (mas1, slv1) \<Rightarrow>
      case vcm_row ids mas1 slv1 every of Inl e \<Rightarrow> Inl e | Inr row \<Rightarrow>
      case vcm_rows ids every rest of Inl e \<Rightarrow> Inl e | Inr rows \<Rightarrow>
        Inr (row # rows))"

text \<open>
  \<open>get_vcmt\<close> takes a list of interferograms or the registry dictionary. A dictionary
  is the list of its items in iteration order (keys distinct).
\<close>

datatype ifgs_arg = IfgList "regval list" | IfgDict "(string \<times> regval) list"

text \<open>
  Lines 235-240: keep the items whose value is a \<open>PrereadIfg\<close>, sort the items, take
  the values.
\<close>

fun isinstance_PrereadIfg :: "regval \<Rightarrow> bool" where
  "isinstance_PrereadIfg (Preread p) = True"
| "isinstance_PrereadIfg v = False"

definition dict_ifgs :: "(string \<times> regval) list \<Rightarrow> regval list" where
  "dict_ifgs items =
     (let ifgs = filter (\<lambda>(k, v). isinstance_PrereadIfg v) items;
          ifgs = sort_key fst ifgs
      in map snd ifgs)"

text \<open>
  \<open>get_vcmt\<close> (lines 215-265). \<open>maxvar\<close> is an array of finite numbers; the square
  root of a negative one is NaN, and so is every entry computed from it.
\<close>

definition get_vcmt :: "ifgs_arg \<Rightarrow> real list \<Rightarrow> py_error + npfloat list list" where
  "get_vcmt arg maxvar =
     (let ifgs = (case arg of IfgDict items \<Rightarrow> dict_ifgs items | IfgList l \<Rightarrow> l);
          nifgs = length ifgs
      in case comprehension getattr_master ifgs of Inl e \<Rightarrow> Inl e | Inr masters \<Rightarrow>
         case comprehension getattr_slave ifgs of Inl e \<Rightarrow> Inl e | Inr slaves \<Rightarrow>
         let dates = masters @ slaves;
             ids = master_slave_ids dates
         in case vcm_rows ids ifgs ifgs of Inl e \<Rightarrow> Inl e
            | Inr vcm_pat \<Rightarrow>
                if length maxvar \<noteq> nifgs then Inl ValueError
                else let std = map np_sqrt maxvar;
                         vcm_t = map (\<lambda>si. map (\<lambda>sj. nf_mul si sj) std) std
                     in Inr (map2 (\<lambda>rt rp. map2 (\<lambda>t p. nf_mul t (Float p)) rt rp) vcm_t vcm_pat))"

text \<open>
  The coefficient pattern as the loop body computes it, on the epochs themselves: equal
  master and slave gives 1; otherwise a master equal to the other's slave gives -0.5;
  otherwise a common master or a common slave gives 0.5; otherwise 0.
\<close>

definition vcm_coeff :: "PrereadIfg \<Rightarrow> PrereadIfg \<Rightarrow> real" where
  "vcm_coeff a b =
     (if master a = master b \<and> slave a = slave b then 1
      else if master a = slave b \<or> slave a = master b then - (1/2)
      else if master a = master b \<or> slave a = slave b then 1/2
      else 0)"

text \<open>
  The coefficient pattern in the order the specification words it: 1, else 0.5 for a
  common master or slave, else -0.5 for a master equal to the other's slave, else 0.
\<close>

definition vcm_coeff_claimed :: "PrereadIfg \<Rightarrow> PrereadIfg \<Rightarrow> real" where
  "vcm_coeff_claimed a b =
     (if master a = master b \<and> slave a = slave b then 1
      else if master a = master b \<or> slave a = slave b then 1/2
      else if master a = slave b \<or> slave a = master b then - (1/2)
      else 0)"

text \<open>
  Example interferograms: the stack A(1,2), B(1,3), C(2,3) of the specification's
  structure-matrix example, and an interferogram Z(1,1) whose two epochs coincide.
\<close>

definition ifgA :: PrereadIfg where
  "ifgA = \<lparr>master = 1, slave = 2, nrows = 4, ncols = 8, path = ''a.tif'',
           nan_fraction = 0, time_span = 1, metadata = Map.empty\<rparr>"

definition ifgB :: PrereadIfg where
  "ifgB = \<lparr>master = 1, slave = 3, nrows = 4, ncols = 8, path = ''b.tif'',
           nan_fraction = 0, time_span = 2, metadata = Map.empty\<rparr>"

definition ifgC :: PrereadIfg where
  "ifgC = \<lparr>master = 2, slave = 3, nrows = 4, ncols = 8, path = ''c.tif'',
           nan_fraction = 0, time_span = 1, metadata = Map.empty\<rparr>"

definition ifgZ :: PrereadIfg where
  "ifgZ = \<lparr>master = 1, slave = 1, nrows = 4, ncols = 8, path = ''z.tif'',
           nan_fraction = 0, time_span = 0, metadata = Map.empty\<rparr>"

text \<open>
  An example registry as \<open>create_ifg_dict\<close> leaves it: three interferograms under
  their paths and the four entries added by the master, in an arbitrary iteration order.
\<close>

definition registry_example :: "(string \<times> regval) list" where
  "registry_example =
     [(''c.tif'', Preread ifgC), (''epochlist'', EpochList [1, 2, 3]),
      (''a.tif'', Preread ifgA), (''gt'', GeoTransform [0, 1, 0, 0, 0, - 1]),
      (''md'', MetaData Map.empty), (''b.tif'', Preread ifgB), (''wkt'', Wkt ''WGS84'')]"

section \<open>run_pyrate.py: configuration and the reference pixel\<close>

text \<open>
  The configuration dictionary \<open>params\<close>, with the entries the modelled functions
  read (the keys are the constants of \<open>pyrate.config\<close>).
\<close>

record params =
  REFX :: int
  REFY :: int
  REF_EST_METHOD :: int
  NAN_CONVERSION :: bool
  TMPDIR :: string

text \<open>The messages \<open>ref_pixel_calc\<close> logs, in the order it logs them.\<close>

datatype log_msg =
    Searching_for_best_reference_pixel
  | Selected_reference_pixel int int
  | Reusing_reference_pixel int int

text \<open>
  \<open>ref_pixel_calc\<close> (lines 169-204). \<open>open_ifg\<close> stands for \<open>Ifg(path)\<close> followed
  by \<open>open(readonly=True)\<close>. \<open>find_ref_pixel\<close> is the search of lines 207-224,
  which consists of calls into \<open>pyrate.refpixel\<close> and the message-passing layer only;
  it is a parameter returning \<open>(refy, refx)\<close> or the exception it raised. The result
  is the log together with the returned \<open>(refx, refy)\<close> or the exception raised.
\<close>

definition ref_pixel_calc ::
  "(string \<Rightarrow> Ifg) \<Rightarrow> (string list \<Rightarrow> params \<Rightarrow> py_error + int \<times> int) \<Rightarrow>
   string list \<Rightarrow> params \<Rightarrow> log_msg list \<times> (py_error + int \<times> int)" where
  "ref_pixel_calc open_ifg find_ref_pixel ifg_paths params =
     (let refx = REFX params in
      case ifg_paths of
        [] \<Rightarrow> ([], Inl IndexError)
      | p0 # _ \<Rightarrow>
          let ifg = open_ifg p0 in
          if refx > int (ncols ifg) - 1 then ([], Inl ValueError)
          else
            let refy = REFY params in
            if refy > int (nrows ifg) - 1 then ([], Inl ValueError)
            else if refx \<le> 0 \<or> refy \<le> 0 then
              (case find_ref_pixel ifg_paths params of
                 Inl e \<Rightarrow> ([Searching_for_best_reference_pixel], Inl e)
               | Inr (refy', refx') \<Rightarrow>
                   ([Searching_for_best_reference_pixel, Selected_reference_pixel refx' refy'],
                    Inr (refx', refy')))
            else ([Reusing_reference_pixel refx refy], Inr (refx, refy)))"

text \<open>
  Example inputs: a 10 by 10 raster behind every path, a search that always selects
  row 7 and column 4, and configurations with the given reference pixel.
\<close>

definition ifg10 :: Ifg where
  "ifg10 = \<lparr>master = 1, slave = 2, nrows = 10, ncols = 10, data_path = ''a.tif'',
            phase_data = replicate 10 (replicate 10 (Some 0)), meta_data = Map.empty,
            x_size = 90, y_size = 90, x_centre = 5, y_centre = 5, num_cells = 100,
            nan_converted = False, mm_converted = False, is_read_only = True,
            ifg_nan_fraction = 0, ifg_time_span = 1\<rparr>"

definition search_7_4 :: "string list \<Rightarrow> params \<Rightarrow> py_error + int \<times> int" where
  "search_7_4 ifg_paths params = Inr (7, 4)"

definition params_ref :: "int \<Rightarrow> int \<Rightarrow> params" where
  "params_ref x y = \<lparr>REFX = x, REFY = y, REF_EST_METHOD = 2, NAN_CONVERSION = True,
                      TMPDIR = ''tmp''\<rparr>"

section \<open>run_pyrate.py: message passing and reference-phase estimation\<close>

text \<open>
  The state of \<open>pyrate.mpiops\<close> seen by one process: its rank, the number of
  processes (\<open>mpiops.size\<close>) and the partition contract. \<open>pyrate.mpiops\<close> is not
  among the source files: \<open>split_of n r\<close> stands for the positions, within a
  collection of \<open>n\<close> elements, of the shard that \<open>mpiops.array_split\<close> assigns to
  rank \<open>r\<close>; it is a parameter of the model.
\<close>

record mpiops =
  rank :: nat
  nprocs :: nat
  split_of :: "nat \<Rightarrow> nat \<Rightarrow> nat list"

definition MASTER_PROCESS :: nat where
  "MASTER_PROCESS = 0"

definition array_split :: "mpiops \<Rightarrow> 'a list \<Rightarrow> nat \<Rightarrow> 'a list" where
  "array_split mpi arr r = map (\<lambda>i. arr ! i) (split_of mpi (length arr) r)"

text \<open>
  Modelled from the spec: the partition contract of section 4.1 and the property
  "partition completeness" of section 8 ("the union of all P shards equals the original
  N-length sequence exactly once each"): every position below \<open>n\<close> lies in exactly one
  shard, once.
\<close>

definition partition_complete :: "mpiops \<Rightarrow> nat \<Rightarrow> bool" where
  "partition_complete mpi n =
     (mset (concat (map (split_of mpi n) [0..<nprocs mpi])) = mset [0..<n])"

text \<open>
  An instance of the contract, used in examples: contiguous blocks whose sizes differ
  by at most one, the larger ones first.
\<close>

definition block_split :: "nat \<Rightarrow> nat \<Rightarrow> nat \<Rightarrow> nat list" where
  "block_split P n r =
     (let q = n div P; m = n mod P; start = r * q + min r m;
          len = q + (if r < m then 1 else 0)
      in [start..<start + len])"

text \<open>
  A point-to-point message: sender rank, tag, payload. The payload is a buffer of
  floating-point numbers, NaN included (an array is sent flattened, row by row). The
  inbox of the master lists the messages in the order they arrive. \<open>Recv\<close> with a
  source and a tag takes the first message from that source with that tag, whatever
  arrived before it; if there is none, it blocks for ever (\<open>None\<close>).
\<close>

type_synonym message = "nat \<times> nat \<times> pixel list"

fun Recv :: "message list \<Rightarrow> nat \<Rightarrow> nat \<Rightarrow> (pixel list \<times> message list) option" where
  "Recv [] source tag = None"
| "Recv (m # inbox) source tag =
     (if fst m = source \<and> fst (snd m) = tag then Some (snd (snd m), inbox)
      else case Recv inbox source tag of
             None \<Rightarrow> None
           | Some (d, inbox') \<Rightarrow> Some (d, m # inbox'))"

text \<open>
  Receiving into a preallocated buffer: the payload overwrites the front of the buffer;
  a payload longer than the buffer is an MPI truncation error.
\<close>

definition recv_into :: "pixel list \<Rightarrow> pixel list \<Rightarrow> py_error + pixel list" where
  "recv_into buf d =
     (if length d > length buf then Inl MPIError else Inr (d @ drop (length d) buf))"

text \<open>
  numpy's \<open>arr[idx] = vals\<close> for an index array: positions out of range raise
  IndexError, values are assigned position by position, a single value is broadcast,
  any other length mismatch raises ValueError.
\<close>

definition np_setitem :: "pixel list \<Rightarrow> nat list \<Rightarrow> pixel list \<Rightarrow> py_error + pixel list" where
  "np_setitem arr idx vals =
     (if list_ex (\<lambda>i. length arr \<le> i) idx then Inl IndexError
      else if length vals = length idx then Inr (fold (\<lambda>(i, v) a. a[i := v]) (zip idx vals) arr)
      else if length vals = 1 then Inr (fold (\<lambda>i a. a[i := hd vals]) idx arr)
      else Inl ValueError)"

text \<open>
  The loop of lines 318-323 over the ranks still to be received from, threading the
  inbox and the array under assembly.
\<close>

fun recv_shards ::
  "mpiops \<Rightarrow> nat \<Rightarrow> nat list \<Rightarrow> message list \<Rightarrow> pixel list \<Rightarrow> (py_error + pixel list) option" where
  "recv_shards mpi n [] inbox ref_phs = Some (Inr ref_phs)"
| "recv_shards mpi n (r # rs) inbox ref_phs =
     (let process_indices = array_split mpi [0..<n] r;
          this_process_ref_phs = replicate (length process_indices) (Some 0)
      in case Recv inbox r r of
           None \<Rightarrow> None
         | Some (d, inbox') \<Rightarrow>
             (case recv_into this_process_ref_phs d of
                Inl e \<Rightarrow> Some (Inl e)
              | Inr this_process_ref_phs \<Rightarrow>
                  (case np_setitem ref_phs process_indices this_process_ref_phs of
                     Inl e \<Rightarrow> Some (Inl e)
                   | Inr ref_phs' \<Rightarrow> recv_shards mpi n rs inbox' ref_phs')))"

text \<open>
  The master's branch of lines 314-324: its own shard first, then the shards of ranks
  1, 2, ... in ascending order; the result is the array saved to \<open>ref_phs.npy\<close>.
  \<open>n\<close> is \<open>len(ifg_paths)\<close>.
\<close>

definition assemble_ref_phs ::
  "mpiops \<Rightarrow> nat \<Rightarrow> pixel list \<Rightarrow> message list \<Rightarrow> (py_error + pixel list) option" where
  "assemble_ref_phs mpi n process_ref_phs inbox =
     (let ref_phs = replicate n (Some 0);
          process_indices = array_split mpi [0..<n] (rank mpi)
      in case np_setitem ref_phs process_indices process_ref_phs of
           Inl e \<Rightarrow> Some (Inl e)
         | Inr ref_phs \<Rightarrow> recv_shards mpi n [1..<nprocs mpi] inbox ref_phs)"

text \<open>
  The collaborators and the surroundings of \<open>ref_phase_estimation\<close>:
  \<^item> \<open>check_ref_phs_ifgs\<close>: \<open>rpe.check_ref_phs_ifgs\<close>;
  \<^item> \<open>est_ref_phs_method1 comp p\<close> and \<open>est_ref_phs_method2 p\<close>: opening the
    interferogram at the path \<open>p\<close> for writing, which may raise, and the reference
    phase that \<open>rpe.est_ref_phs_method1\<close> and \<open>rpe.est_ref_phs_method2\<close> compute
    from its phase data (with the chip size, the threshold and the reference pixel of
    the call);
  \<^item> \<open>phase_data_of p\<close>: opening \<open>Ifg(p)\<close>, which may raise, and the phase data
    read; the shape of the interferogram is the shape of this array, which is
    rectangular;
  \<^item> \<open>bcast_comp\<close>: what the broadcast of line 579 delivers to a process other than
    the master, \<open>None\<close> if the master never reaches that broadcast.
  A send returns at once (the message is buffered); on the master the broadcast
  returns its argument.
\<close>

record rpe_ext =
  check_ref_phs_ifgs :: "string list \<Rightarrow> (string \<times> regval) list \<Rightarrow> py_error + bool"
  est_ref_phs_method1 :: "bool list \<Rightarrow> string \<Rightarrow> py_error + pixel"
  est_ref_phs_method2 :: "string \<Rightarrow> py_error + pixel"
  phase_data_of :: "string \<Rightarrow> py_error + pixel list list"
  bcast_comp :: "bool list option"

text \<open>
  Arithmetic on two-dimensional phase arrays. NaN spreads through a sum. \<open>a += b\<close>
  stretches an axis of length one of \<open>b\<close> to the length \<open>a\<close> has on that axis, and
  raises ValueError if the shapes still differ.
\<close>

fun pixel_add :: "pixel \<Rightarrow> pixel \<Rightarrow> pixel" where
  "pixel_add (Some a) (Some b) = Some (a + b)"
| "pixel_add a b = None"

definition np_shape :: "'a list list \<Rightarrow> nat \<times> nat" where
  "np_shape g = (length g, case g of [] \<Rightarrow> 0 | row # _ \<Rightarrow> length row)"

definition broadcast_to :: "nat \<times> nat \<Rightarrow> 'a list list \<Rightarrow> py_error + 'a list list" where
  "broadcast_to shape b =
     (let (nr, nc) = shape; (br, bc) = np_shape b
      in if (br = nr \<or> br = 1) \<and> (bc = nc \<or> bc = 1)
         then Inr (map (\<lambda>i. map (\<lambda>j. b ! (if br = 1 then 0 else i) ! (if bc = 1 then 0 else j))
                                 [0..<nc]) [0..<nr])
         else Inl ValueError)"

definition grid_add :: "pixel list list \<Rightarrow> pixel list list \<Rightarrow> py_error + pixel list list" where
  "grid_add a b =
     (case broadcast_to (np_shape a) b of
        Inl e \<Rightarrow> Inl e
      | Inr b' \<Rightarrow> Inr (map2 (map2 pixel_add) a b'))"

text \<open>
  The loop of lines 557-562 of \<open>phase_sum\<close>: every interferogram of the shard is
  opened and its phase data added to the sum.
\<close>

fun phase_loop :: "rpe_ext \<Rightarrow> pixel list list \<Rightarrow> string list \<Rightarrow> py_error + pixel list list" where
  "phase_loop ext phs_sum [] = Inr phs_sum"
| "phase_loop ext phs_sum (d # ds) =
     (case phase_data_of ext d of
        Inl e \<Rightarrow> Inl e
      | Inr data \<Rightarrow>
          (case grid_add phs_sum data of
             Inl e \<Rightarrow> Inl e
           | Inr phs_sum' \<Rightarrow> phase_loop ext phs_sum' ds))"

text \<open>A flat buffer read back as an array of \<open>nr\<close> rows and \<open>nc\<close> columns.\<close>

definition rows_of :: "nat \<Rightarrow> nat \<Rightarrow> 'a list \<Rightarrow> 'a list list" where
  "rows_of nr nc buf = map (\<lambda>i. take nc (drop (i * nc) buf)) [0..<nr]"

text \<open>
  The loop of lines 569-572 of \<open>phase_sum\<close>: the master receives the partial sum of
  every other rank, in ascending order, into a zero array of the shape of its own sum,
  and adds it to the total.
\<close>

fun recv_sums ::
  "nat \<Rightarrow> nat \<Rightarrow> nat list \<Rightarrow> message list \<Rightarrow> pixel list list \<Rightarrow>
   (py_error + pixel list list \<times> message list) option" where
  "recv_sums nr nc [] inbox phase_sum_all = Some (Inr (phase_sum_all, inbox))"
| "recv_sums nr nc (i # rs) inbox phase_sum_all =
     (case Recv inbox i i of
        None \<Rightarrow> None
      | Some (d, inbox') \<Rightarrow>
          (case recv_into (replicate (nr * nc) (Some 0)) d of
             Inl e \<Rightarrow> Some (Inl e)
           | Inr buf \<Rightarrow>
               (case grid_add phase_sum_all (rows_of nr nc buf) of
                  Inl e \<Rightarrow> Some (Inl e)
                | Inr phase_sum_all' \<Rightarrow> recv_sums nr nc rs inbox' phase_sum_all')))"

text \<open>
  \<open>phase_sum\<close> (lines 543-580) as run by the process \<open>mpi\<close>: the mask \<open>comp\<close> (the
  NaN positions of the total, column by column), the inbox left, and the messages
  sent. \<open>Ifg(p_paths[0])\<close> raises IndexError on an empty shard. A process other than
  the master sends its partial sum and then waits for the broadcast.
\<close>

definition phase_sum ::
  "mpiops \<Rightarrow> rpe_ext \<Rightarrow> message list \<Rightarrow> string list \<Rightarrow>
   (py_error + bool list \<times> message list \<times> message list) option" where
  "phase_sum mpi ext inbox ifg_paths =
     (let p_paths = array_split mpi ifg_paths (rank mpi)
      in case p_paths of
           [] \<Rightarrow> Some (Inl IndexError)
         | p0 # _ \<Rightarrow>
             (case phase_data_of ext p0 of
                Inl e \<Rightarrow> Some (Inl e)
              | Inr first_data \<Rightarrow>
                  let (shape_rows, shape_cols) = np_shape first_data;
                      zeros = replicate shape_rows (replicate shape_cols (Some 0))
                  in case phase_loop ext zeros p_paths of
                       Inl e \<Rightarrow> Some (Inl e)
                     | Inr phs_sum \<Rightarrow>
                         if rank mpi = MASTER_PROCESS then
                           (case recv_sums shape_rows shape_cols [1..<nprocs mpi] inbox phs_sum of
                              None \<Rightarrow> None
                            | Some (Inl e) \<Rightarrow> Some (Inl e)
                            | Some (Inr (phase_sum_all, inbox')) \<Rightarrow>
                                Some (Inr (concat (transpose
                                                    (map (map (\<lambda>v. v = None)) phase_sum_all)),
                                           inbox', [])))
                         else
                           (case bcast_comp ext of
                              None \<Rightarrow> None
                            | Some comp_mask \<Rightarrow>
                                Some (Inr (comp_mask, inbox,
                                           [(rank mpi, rank mpi, concat phs_sum)])))))"

text \<open>
  \<open>ref_phs_method1\<close> and \<open>ref_phs_method2\<close> (lines 332-394) have one shape: the
  process takes its shard of the paths and, for each path, estimates the reference
  phase, subtracts it from the phase data, marks the metadata and writes the
  interferogram back. The result is the list of interferograms rewritten and the array
  of their reference phases, or the first error raised.
\<close>

definition ref_phs_method ::
  "mpiops \<Rightarrow> (string \<Rightarrow> py_error + pixel) \<Rightarrow> string list \<Rightarrow>
   py_error + string list \<times> pixel list" where
  "ref_phs_method mpi est ifg_paths =
     (let process_ifg_paths = array_split mpi ifg_paths (rank mpi)
      in case comprehension est process_ifg_paths of
           Inl e \<Rightarrow> Inl e
         | Inr ref_phs \<Rightarrow> Inr (process_ifg_paths, ref_phs))"

text \<open>
  What one process did in \<open>ref_phase_estimation\<close>: returned at the check; or rewrote
  the listed interferograms and, as master, saved the assembled array, or, as another
  rank, sent the listed messages to the master (its partial phase sum under method 1,
  then its shard of reference phases).
\<close>

datatype rpe_outcome =
    Skipped
  | Master_saved "string list" "pixel list"
  | Worker_sent "string list" "message list"

text \<open>
  Lines 301-310 and 312-328, after the check: the reference phases of the shard by the
  configured method, then the assembly on the master or the send to it.
\<close>

definition estimate_and_assemble ::
  "mpiops \<Rightarrow> rpe_ext \<Rightarrow> message list \<Rightarrow> string list \<Rightarrow> params \<Rightarrow>
   (py_error + rpe_outcome) option" where
  "estimate_and_assemble mpi ext inbox ifg_paths params =
     (let estimated =
            (if REF_EST_METHOD params = 1 then
               (case phase_sum mpi ext inbox ifg_paths of
                  None \<Rightarrow> None
                | Some (Inl e) \<Rightarrow> Some (Inl e)
                | Some (Inr (comp_mask, inbox', sent)) \<Rightarrow>
                    (case ref_phs_method mpi (est_ref_phs_method1 ext comp_mask) ifg_paths of
                       Inl e \<Rightarrow> Some (Inl e)
                     | Inr process_ref_phs \<Rightarrow> Some (Inr (process_ref_phs, inbox', sent))))
             else if REF_EST_METHOD params = 2 then
               (case ref_phs_method mpi (est_ref_phs_method2 ext) ifg_paths of
                  Inl e \<Rightarrow> Some (Inl e)
                | Inr process_ref_phs \<Rightarrow> Some (Inr (process_ref_phs, inbox, [])))
             else Some (Inl ConfigException))
      in case estimated of
           None \<Rightarrow> None
         | Some (Inl e) \<Rightarrow> Some (Inl e)
         | Some (Inr ((rewritten, process_ref_phs), inbox', sent)) \<Rightarrow>
             if rank mpi = MASTER_PROCESS then
               (case assemble_ref_phs mpi (length ifg_paths) process_ref_phs inbox' of
                  None \<Rightarrow> None
                | Some (Inl e) \<Rightarrow> Some (Inl e)
                | Some (Inr ref_phs) \<Rightarrow> Some (Inr (Master_saved rewritten ref_phs)))
             else
               Some (Inr (Worker_sent rewritten
                            (sent @ [(rank mpi, rank mpi, process_ref_phs)]))))"

text \<open>
  \<open>ref_phase_estimation\<close> (lines 283-329) as run by the process \<open>mpi\<close>.
  \<open>preread_ifgs\<close> is \<open>None\<close> or the items of the registry; it is truthy when it is a
  non-empty dictionary. Line 297 rebinds \<open>ifg_paths\<close> to the sorted keys of the
  registry, on the master only. The outer \<open>option\<close> is \<open>None\<close> when the process
  blocks for ever in a receive or a broadcast.
\<close>

definition ref_phase_estimation ::
  "mpiops \<Rightarrow> rpe_ext \<Rightarrow> message list \<Rightarrow> string list \<Rightarrow> params \<Rightarrow>
   (string \<times> regval) list option \<Rightarrow> (py_error + rpe_outcome) option" where
  "ref_phase_estimation mpi ext inbox ifg_paths0 params preread_ifgs =
     (let checked =
            (case preread_ifgs of
               None \<Rightarrow> None
             | Some items \<Rightarrow>
                 if items \<noteq> [] \<and> rank mpi = MASTER_PROCESS then Some items else None);
          ifg_paths = (case checked of None \<Rightarrow> ifg_paths0 | Some items \<Rightarrow> sort (map fst items));
          skip = (case checked of
                    None \<Rightarrow> Inr False
                  | Some items \<Rightarrow> check_ref_phs_ifgs ext ifg_paths items)
      in case skip of
           Inl e \<Rightarrow> Some (Inl e)
         | Inr True \<Rightarrow> Some (Inr Skipped)
         | Inr False \<Rightarrow> estimate_and_assemble mpi ext inbox ifg_paths params)"

text \<open>
  A reference for the assembly, without messages: the shards \<open>shard r\<close> written into
  the array in the order of the given ranks.
\<close>

fun put_shards ::
  "mpiops \<Rightarrow> nat \<Rightarrow> (nat \<Rightarrow> pixel list) \<Rightarrow> nat list \<Rightarrow> pixel list \<Rightarrow> py_error + pixel list" where
  "put_shards mpi n shard [] ref_phs = Inr ref_phs"
| "put_shards mpi n shard (r # rs) ref_phs =
     (case np_setitem ref_phs (array_split mpi [0..<n] r) (shard r) of
        Inl e \<Rightarrow> Inl e
      | Inr ref_phs' \<Rightarrow> put_shards mpi n shard rs ref_phs')"

text \<open>
  Example runs: three processes sharing five interferograms, with the master's view;
  two processes sharing the three interferograms of \<open>registry_example\<close>; collaborators
  whose check reports every interferogram as already corrected; collaborators whose
  check reports none as corrected and whose estimator tells the paths apart, first
  with every key of the registry opening as an interferogram, then with only the three
  files opening.
\<close>

definition master_of_3 :: mpiops where
  "master_of_3 = \<lparr>rank = 0, nprocs = 3, split_of = block_split 3\<rparr>"

definition shard_example :: "nat \<Rightarrow> pixel list" where
  "shard_example r =
     (if r = 0 then [Some 1, Some 2] else if r = 1 then [Some 3, Some 4] else [Some 5])"

definition rank_of_2 :: "nat \<Rightarrow> mpiops" where
  "rank_of_2 r = \<lparr>rank = r, nprocs = 2, split_of = block_split 2\<rparr>"

definition ext_all_corrected :: rpe_ext where
  "ext_all_corrected =
     \<lparr>check_ref_phs_ifgs = (\<lambda>ifg_paths items. Inr True),
      est_ref_phs_method1 = (\<lambda>comp_mask p. Inr (Some (1/2))),
      est_ref_phs_method2 = (\<lambda>p. Inr (Some (1/2))),
      phase_data_of = (\<lambda>p. Inr [[Some 0]]),
      bcast_comp = None\<rparr>"

definition est_example :: "string \<Rightarrow> pixel" where
  "est_example p =
     (if p = ''a.tif'' then Some 1 else if p = ''b.tif'' then Some 2
      else if p = ''c.tif'' then Some 3 else Some 4)"

definition ext_none_corrected :: rpe_ext where
  "ext_none_corrected =
     \<lparr>check_ref_phs_ifgs = (\<lambda>ifg_paths items. Inr False),
      est_ref_phs_method1 = (\<lambda>comp_mask p. Inr (est_example p)),
      est_ref_phs_method2 = (\<lambda>p. Inr (est_example p)),
      phase_data_of = (\<lambda>p. Inr [[Some 0]]),
      bcast_comp = Some [False]\<rparr>"

definition is_file_example :: "string \<Rightarrow> bool" where
  "is_file_example p = (p \<in> {''a.tif'', ''b.tif'', ''c.tif''})"

definition ext_files_only :: rpe_ext where
  "ext_files_only =
     \<lparr>check_ref_phs_ifgs = (\<lambda>ifg_paths items. Inr False),
      est_ref_phs_method1 =
        (\<lambda>comp_mask p. if is_file_example p then Inr (est_example p) else Inl IOError),
      est_ref_phs_method2 = (\<lambda>p. if is_file_example p then Inr (est_example p) else Inl IOError),
      phase_data_of = (\<lambda>p. if is_file_example p then Inr [[Some 0]] else Inl IOError),
      bcast_comp = Some [False]\<rparr>"

section \<open>run_pyrate.py: the preread registry\<close>

text \<open>
  A Python dictionary under construction is the list of its items in insertion order;
  \<open>d[k] = v\<close> replaces the value of an existing key in place and appends a new key.
\<close>

fun dict_setitem :: "('k \<times> 'v) list \<Rightarrow> 'k \<Rightarrow> 'v \<Rightarrow> ('k \<times> 'v) list" where
  "dict_setitem [] k v = [(k, v)]"
| "dict_setitem ((k', v') # d) k v =
     (if k' = k then (k, v) # d else (k', v') # dict_setitem d k v)"

text \<open>
  \<open>_join_dicts\<close> (lines 69-80): the dictionary comprehension over all items of all
  dictionaries, in order. (The \<open>None\<close> argument of line 77 does not arise from
  \<open>allgather\<close>.)
\<close>

definition join_dicts :: "('k \<times> 'v) list list \<Rightarrow> ('k \<times> 'v) list" where
  "join_dicts dicts =
     fold (\<lambda>(k, v) assembled_dict. dict_setitem assembled_dict k v) (concat dicts) []"

text \<open>
  The collaborators of \<open>create_ifg_dict\<close> that are not among the source files:
  \<open>shared.prepare_ifg\<close>, \<open>shared.get_projection_info\<close> and the first component of
  \<open>algorithm.get_epochs\<close>.
\<close>

record registry_ext =
  prepare_ifg :: "string \<Rightarrow> params \<Rightarrow> Ifg"
  get_projection_info :: "string \<Rightarrow> real list \<times> (string \<rightharpoonup> string) \<times> string"
  get_epochs :: "(string \<times> regval) list \<Rightarrow> epoch list"

text \<open>The snapshot built at lines 100-107 from the prepared interferogram.\<close>

definition preread_of_ifg :: "string \<Rightarrow> Ifg \<Rightarrow> PrereadIfg" where
  "preread_of_ifg d ifg =
     \<lparr>master = master ifg, slave = slave ifg, nrows = nrows ifg, ncols = ncols ifg,
      path = d, nan_fraction = ifg_nan_fraction ifg, time_span = ifg_time_span ifg,
      metadata = meta_data ifg\<rparr>"

text \<open>Lines 95-108: the dictionary one process builds for its shard of the paths.\<close>

definition process_ifgs_dict ::
  "mpiops \<Rightarrow> registry_ext \<Rightarrow> string list \<Rightarrow> params \<Rightarrow> (string \<times> regval) list" where
  "process_ifgs_dict mpi ext dest_tifs params =
     fold (\<lambda>d ifgs_dict.
             dict_setitem ifgs_dict d (Preread (preread_of_ifg d (prepare_ifg ext d params))))
          (array_split mpi dest_tifs (rank mpi)) []"

text \<open>
  Lines 113-122, on the master: the entries added to the joined dictionary, which is
  then dumped to the registry file. \<open>process_tifs[0]\<close> raises IndexError on an empty
  shard.
\<close>

definition master_additions ::
  "registry_ext \<Rightarrow> string list \<Rightarrow> (string \<times> regval) list \<Rightarrow> py_error + (string \<times> regval) list" where
  "master_additions ext process_tifs ifgs_dict =
     (case process_tifs of
        [] \<Rightarrow> Inl IndexError
      | t0 # _ \<Rightarrow>
          (case get_projection_info ext t0 of (gt, md, wkt) \<Rightarrow>
             let d1 = dict_setitem ifgs_dict ''epochlist'' (EpochList (get_epochs ext ifgs_dict));
                 d2 = dict_setitem d1 ''gt'' (GeoTransform gt);
                 d3 = dict_setitem d2 ''md'' (MetaData md);
                 d4 = dict_setitem d3 ''wkt'' (Wkt wkt)
             in Inr d4))"

text \<open>
  \<open>create_ifg_dict\<close> (lines 83-128) run by \<open>P\<close> processes, as what each rank returns.
  \<open>allgather\<close> hands every process the list of all processes' dictionaries in rank
  order. The barrier of line 124 separates the master's dump from every load: after it
  each process loads the file the master wrote. If the master raises before the
  barrier, the other processes wait at it for ever (\<open>None\<close>).
\<close>

definition process_of :: "nat \<Rightarrow> (nat \<Rightarrow> nat \<Rightarrow> nat list) \<Rightarrow> nat \<Rightarrow> mpiops" where
  "process_of P split r = \<lparr>rank = r, nprocs = P, split_of = split\<rparr>"

definition create_ifg_dict ::
  "nat \<Rightarrow> (nat \<Rightarrow> nat \<Rightarrow> nat list) \<Rightarrow> registry_ext \<Rightarrow> string list \<Rightarrow> params \<Rightarrow>
   (py_error + (string \<times> regval) list) option list" where
  "create_ifg_dict P split ext dest_tifs params =
     (let gathered = map (\<lambda>r. process_ifgs_dict (process_of P split r) ext dest_tifs params) [0..<P];
          ifgs_dict = join_dicts gathered;
          dumped = master_additions ext
                     (array_split (process_of P split MASTER_PROCESS) dest_tifs MASTER_PROCESS)
                     ifgs_dict
      in map (\<lambda>r. case dumped of
                      Inl e \<Rightarrow> if r = MASTER_PROCESS then Some (Inl e) else None
                    | Inr preread_ifgs \<Rightarrow> Some (Inr preread_ifgs))
             [0..<P])"

text \<open>The keys the master adds, and example collaborators.\<close>

definition global_keys :: "string list" where
  "global_keys = [''epochlist'', ''gt'', ''md'', ''wkt'']"

definition registry_ext_example :: registry_ext where
  "registry_ext_example =
     \<lparr>prepare_ifg = (\<lambda>d params. ifg10\<lparr>data_path := d\<rparr>),
      get_projection_info = (\<lambda>p. ([0, 1, 0, 0, 0, - 1], Map.empty, ''WGS84'')),
      get_epochs = (\<lambda>d. [1, 2])\<rparr>"

section \<open>vcm.py: covariance against distance\<close>

text \<open>\<open>numpy.linalg.norm\<close> of a vector: the Euclidean norm, NaN if an entry is NaN.\<close>

definition np_norm :: "npfloat list \<Rightarrow> npfloat" where
  "np_norm v =
     (if list_ex (\<lambda>x. x = NaN) v then NaN
      else Float (sqrt (sum_list (map (\<lambda>x. x * x) (concat (map nf_finite v))))))"

text \<open>\<open>numpy.mean\<close> of a vector: NaN for an empty one and for one holding a NaN.\<close>

definition np_mean :: "npfloat list \<Rightarrow> npfloat" where
  "np_mean xs =
     (if xs = [] \<or> list_ex (\<lambda>x. x = NaN) xs then NaN
      else Float (sum_list (concat (map nf_finite xs)) / real (length xs)))"

text \<open>The builtin \<open>max\<close> of a sequence: ValueError for an empty one.\<close>

definition py_max :: "('a::linorder) list \<Rightarrow> py_error + 'a" where
  "py_max xs = (case xs of [] \<Rightarrow> Inl ValueError | x # rest \<Rightarrow> Inr (fold max rest x))"

text \<open>
  \<open>numpy.max\<close> of a vector: ValueError for an empty one, NaN for one holding a NaN.
\<close>

definition np_max :: "npfloat list \<Rightarrow> py_error + npfloat" where
  "np_max xs =
     (if xs = [] then Inl ValueError
      else if list_ex (\<lambda>x. x = NaN) xs then Inr NaN
      else map_sum id Float (py_max (concat (map nf_finite xs))))"

text \<open>\<open>numpy.reshape\<close> of a two-dimensional array to one dimension of a given size.\<close>

definition reshape :: "'a list list \<Rightarrow> nat \<Rightarrow> py_error + 'a list" where
  "reshape a n = (if length (concat a) = n then Inr (concat a) else Inl ValueError)"

text \<open>
  \<open>pendiffexp\<close> (lines 40-55). \<open>cvdav\<close> is the pair of its two rows: the radii and
  the mean variances. \<open>cvdav[1, 0]\<close> raises IndexError when the rows are empty.
\<close>

definition pendiffexp :: "real \<Rightarrow> real list \<times> npfloat list \<Rightarrow> py_error + npfloat" where
  "pendiffexp alphamod cvdav =
     (case snd cvdav of
        [] \<Rightarrow> Inl IndexError
      | mx # _ \<Rightarrow>
          Inr (np_norm (map2 (\<lambda>v r. nf_sub v (nf_mul mx (Float (exp (- alphamod * r)))))
                         (snd cvdav) (fst cvdav))))"

text \<open>
  The collaborators of \<open>cvd\<close> that are not among the source files, and the constants
  of \<open>pyrate.ifgconstants\<close> it uses:
  \<^item> \<open>open_path p readonly\<close>: \<open>Ifg(p)\<close> followed by \<open>open(readonly=...)\<close>, or by
    \<open>open()\<close> when \<open>readonly\<close> is \<open>None\<close>; the file is taken to open;
  \<^item> \<open>nan_and_mm_convert\<close>: \<open>shared.nan_and_mm_convert\<close>, as the state of the
    interferogram object after the call (the call returns nothing);
  \<^item> \<open>autocorr_grid\<close>: the spectral autocorrelation of lines 104-108 (\<open>fft2\<close>, power
    spectrum, \<open>ifft2\<close>, division by the count of non-zero samples, \<open>fftshift\<close>), a grid
    of the shape of its argument, NaN where the computation gives NaN;
  \<^item> \<open>fmin\<close>: \<open>scipy.optimize.fmin\<close> with the tolerances of lines 179-180, from an
    objective and a start value to the first component of its result;
  \<^item> \<open>write_modified_phase\<close>: \<open>Ifg.write_modified_phase\<close>, as the state of the object
    after the call, or the exception raised;
  \<^item> \<open>str_float\<close>: \<open>str\<close> of a finite floating-point number.
\<close>

record cvd_ext =
  open_path :: "string \<Rightarrow> bool option \<Rightarrow> Ifg"
  nan_and_mm_convert :: "Ifg \<Rightarrow> params \<Rightarrow> Ifg"
  autocorr_grid :: "pixel list list \<Rightarrow> npfloat list list"
  fmin :: "(real \<Rightarrow> npfloat) \<Rightarrow> real \<Rightarrow> npfloat"
  write_modified_phase :: "Ifg \<Rightarrow> py_error + Ifg"
  str_float :: "real \<Rightarrow> string"
  PYRATE_MAXVAR :: string
  PYRATE_ALPHA :: string

text \<open>\<open>str\<close> of \<open>maxvar\<close> and of \<open>alpha\<close>, which is \<open>None\<close> when not computed.\<close>

definition str_npfloat :: "cvd_ext \<Rightarrow> npfloat \<Rightarrow> string" where
  "str_npfloat ext x = (case x of NaN \<Rightarrow> ''nan'' | Float a \<Rightarrow> str_float ext a)"

definition str_alpha :: "cvd_ext \<Rightarrow> npfloat option \<Rightarrow> string" where
  "str_alpha ext alpha = (case alpha of None \<Rightarrow> ''None'' | Some a \<Rightarrow> str_npfloat ext a)"

text \<open>
  \<open>_add_metadata\<close> (lines 195-202): the state of the object after the two assignments,
  and the outcome of the write-back.
\<close>

definition add_metadata_md :: "cvd_ext \<Rightarrow> Ifg \<Rightarrow> npfloat \<Rightarrow> npfloat option \<Rightarrow> Ifg" where
  "add_metadata_md ext ifg maxvar alpha =
     (let md = meta_data ifg;
          md = md(PYRATE_MAXVAR ext \<mapsto> str_npfloat ext maxvar);
          md = md(PYRATE_ALPHA ext \<mapsto> str_alpha ext alpha)
      in ifg\<lparr>meta_data := md\<rparr>)"

definition add_metadata ::
  "cvd_ext \<Rightarrow> Ifg \<Rightarrow> npfloat \<Rightarrow> npfloat option \<Rightarrow> Ifg \<times> (py_error + unit)" where
  "add_metadata ext ifg maxvar alpha =
     (let ifg = add_metadata_md ext ifg maxvar alpha
      in case write_modified_phase ext ifg of
           Inl e \<Rightarrow> (ifg, Inl e)
         | Inr ifg' \<Rightarrow> (ifg', Inr ()))"

text \<open>The argument \<open>ifg_path\<close> of \<open>cvd\<close>: a path (during MPI runs) or an open object.\<close>

datatype ifg_arg = IfgPath string | IfgObject Ifg

text \<open>Lines 81-88: the interferogram object \<open>cvd\<close> works on.\<close>

definition cvd_ifg :: "cvd_ext \<Rightarrow> ifg_arg \<Rightarrow> bool \<Rightarrow> Ifg" where
  "cvd_ifg ext ifg_path write_vals =
     (case ifg_path of
        IfgPath p \<Rightarrow> open_path ext p (if write_vals then Some False else None)
      | IfgObject ifg \<Rightarrow> ifg)"

text \<open>Lines 93-96: NaN replaced by zero when the interferogram is nan-converted.\<close>

definition cvd_phase :: "Ifg \<Rightarrow> pixel list list" where
  "cvd_phase ifg =
     (if nan_converted ifg
      then map (map (\<lambda>v. case v of None \<Rightarrow> Some 0 | Some x \<Rightarrow> Some x)) (phase_data ifg)
      else phase_data ifg)"

definition distfact :: real where
  "distfact = 1000"

text \<open>
  Lines 111-117: the grid of radial distances from the image centre, for the shape
  \<open>(nrows, ncols)\<close> of the phase array; \<open>xx\<close> runs over the columns, \<open>yy\<close> over the rows.
\<close>

definition r_dist_grid :: "Ifg \<Rightarrow> nat \<Rightarrow> nat \<Rightarrow> real list list" where
  "r_dist_grid ifg nrows_p ncols_p =
     map (\<lambda>yy. map (\<lambda>xx.
            sqrt ((real_of_int (int xx - int (x_centre ifg)) * x_size ifg)\<^sup>2 +
                  (real_of_int (int yy - int (y_centre ifg)) * y_size ifg)\<^sup>2) / distfact)
          [0..<ncols_p]) [0..<nrows_p]"

text \<open>Lines 140-148: the bin width and the search radius.\<close>

definition bin_width_of :: "Ifg \<Rightarrow> real" where
  "bin_width_of ifg = max (x_size ifg) (y_size ifg) * 2 / distfact"

definition maxdist_of :: "Ifg \<Rightarrow> real" where
  "maxdist_of ifg =
     (if real (x_centre ifg) * x_size ifg < real (y_centre ifg) * y_size ifg
      then real (x_centre ifg) * x_size ifg / distfact
      else real (y_centre ifg) * y_size ifg / distfact)"

text \<open>
  Lines 119-156: the distances and autocorrelations flattened in raster scan order,
  cut to the first \<open>ceil(num_cells / 2) + nrows\<close> elements and filtered by
  \<open>r_dist < maxdist\<close>; the result lists the surviving pairs \<open>(r_dist, acg)\<close>.
\<close>

definition cvd_points ::
  "Ifg \<Rightarrow> pixel list list \<Rightarrow> npfloat list list \<Rightarrow> py_error + (real \<times> npfloat) list" where
  "cvd_points ifg phase grid =
     (let nrows_p = length phase;
          ncols_p = (case phase of [] \<Rightarrow> 0 | row # _ \<Rightarrow> length row)
      in case reshape (r_dist_grid ifg nrows_p ncols_p) (num_cells ifg) of
           Inl e \<Rightarrow> Inl e
         | Inr r_dist \<Rightarrow>
             (case reshape grid (num_cells ifg) of
                Inl e \<Rightarrow> Inl e
              | Inr acg \<Rightarrow>
                  let r_dist = take (nat \<lceil>real (num_cells ifg) / 2\<rceil> + nrows ifg) r_dist;
                      acg = take (length r_dist) acg;
                      maxdist = maxdist_of ifg
                  in Inr (filter (\<lambda>(r, a). r < maxdist) (zip r_dist acg))))"

text \<open>
  Lines 165-182: the bins, the per-bin means and the fit. A zero bin width makes
  \<open>r_dist / bin_width\<close> infinite or NaN, whose conversion to integers numpy does not
  define (on the usual platforms it is the most negative integer, for which \<open>zeros\<close>
  raises); the model reports it as a ValueError. Within \<open>cvd\<close> the case does not
  arise: a point that survives the distance filter needs positive pixel sizes. A
  negative \<open>maxbin\<close> makes \<open>zeros\<close> raise ValueError. \<open>fmin\<close> evaluates the
  objective at the start value, so the IndexError of \<open>pendiffexp\<close> on empty rows
  surfaces from it.
\<close>

definition cvd_bins :: "real \<Rightarrow> (real \<times> npfloat) list \<Rightarrow> int list" where
  "cvd_bins bin_width points = map (\<lambda>(r, a). \<lceil>r / bin_width\<rceil>) points"

definition cvd_cvdav ::
  "real \<Rightarrow> (real \<times> npfloat) list \<Rightarrow> nat \<Rightarrow> real list \<times> npfloat list" where
  "cvd_cvdav bin_width points maxbin =
     (let rbin = cvd_bins bin_width points;
          acg = map snd points
      in (map (\<lambda>b. real b * bin_width) [0..<maxbin],
          map (\<lambda>b. np_mean (map snd (filter (\<lambda>(rb, a). rb = int b) (zip rbin acg))))
              [0..<maxbin]))"

definition cvd_alpha :: "cvd_ext \<Rightarrow> real \<Rightarrow> (real \<times> npfloat) list \<Rightarrow> py_error + npfloat" where
  "cvd_alpha ext bin_width points =
     (if bin_width = 0 then Inl ValueError
      else case py_max (cvd_bins bin_width points) of
             Inl e \<Rightarrow> Inl e
           | Inr maxbin \<Rightarrow>
               if maxbin < 0 then Inl ValueError
               else
                 let cvdav = cvd_cvdav bin_width points (nat maxbin);
                     alphaguess = 2 / (real_of_int maxbin * bin_width)
                 in case pendiffexp alphaguess cvdav of
                      Inl e \<Rightarrow> Inl e
                    | Inr _ \<Rightarrow>
                        Inr (fmin ext (\<lambda>alphamod. case pendiffexp alphamod cvdav of
                                                   Inl e \<Rightarrow> NaN | Inr v \<Rightarrow> v)
                                      alphaguess))"

text \<open>
  \<open>_save_cvd_data\<close> (lines 205-212): the array saved, one row \<open>(acg, r_dist)\<close> per
  point; \<open>basename\<close> of an interferogram object raises TypeError. The file name is
  not modelled.
\<close>

definition save_cvd_data ::
  "(real \<times> npfloat) list \<Rightarrow> ifg_arg \<Rightarrow> py_error + (npfloat \<times> real) list" where
  "save_cvd_data points ifg_path =
     (case ifg_path of
        IfgPath p \<Rightarrow> Inr (map (\<lambda>(r, a). (a, r)) points)
      | IfgObject ifg \<Rightarrow> Inl TypeError)"

text \<open>
  \<open>cvd\<close> (lines 66-192). The result is the state of the interferogram object when the
  function is left, together with the exception raised or the returned values: the
  array saved to disk if any, \<open>maxvar\<close> and \<open>alpha\<close>.
\<close>

definition cvd ::
  "cvd_ext \<Rightarrow> ifg_arg \<Rightarrow> params \<Rightarrow> bool \<Rightarrow> bool \<Rightarrow> bool \<Rightarrow>
   Ifg \<times> (py_error + (npfloat \<times> real) list option \<times> npfloat \<times> npfloat option)" where
  "cvd ext ifg_path params calc_alpha write_vals save_acg =
     (let ifg = cvd_ifg ext ifg_path write_vals;
          ifg = nan_and_mm_convert ext ifg params;
          phase = cvd_phase ifg
      in case cvd_points ifg phase (autocorr_grid ext phase) of
           Inl e \<Rightarrow> (ifg, Inl e)
         | Inr points \<Rightarrow>
             (case (if save_acg then map_sum id Some (save_cvd_data points ifg_path) else Inr None) of
                Inl e \<Rightarrow> (ifg, Inl e)
              | Inr saved \<Rightarrow>
                  (case np_max (map snd points) of
                     Inl e \<Rightarrow> (ifg, Inl e)
                   | Inr maxvar \<Rightarrow>
                       (case (if calc_alpha
                              then map_sum id Some (cvd_alpha ext (bin_width_of ifg) points)
                              else Inr None) of
                          Inl e \<Rightarrow> (ifg, Inl e)
                        | Inr alpha \<Rightarrow>
                            if write_vals then
                              (case add_metadata ext ifg maxvar alpha of
                                 (ifg', Inl e) \<Rightarrow> (ifg', Inl e)
                               | (ifg', Inr u) \<Rightarrow> (ifg', Inr (saved, maxvar, alpha)))
                            else (ifg, Inr (saved, maxvar, alpha))))))"

text \<open>
  For the statements about \<open>cvd\<close>: the shape invariant of an interferogram object
  and of the autocorrelation grid computed from it; the radial distance of the cell
  with index \<open>k\<close> in raster scan order (row \<open>k div ncols\<close>, column \<open>k mod ncols\<close>);
  the cells that survive the truncation and the distance filter of the code, in raster
  scan order; and the maximum of a vector of values, NaN if one of them is NaN.
\<close>

definition well_shaped :: "Ifg \<Rightarrow> npfloat list list \<Rightarrow> bool" where
  "well_shaped ifg grid =
     (num_cells ifg = nrows ifg * ncols ifg \<and>
      length (phase_data ifg) = nrows ifg \<and> list_all (\<lambda>row. length row = ncols ifg) (phase_data ifg) \<and>
      length grid = nrows ifg \<and> list_all (\<lambda>row. length row = ncols ifg) grid)"

definition cell_dist :: "Ifg \<Rightarrow> nat \<Rightarrow> real" where
  "cell_dist ifg k =
     sqrt ((real_of_int (int (k mod ncols ifg) - int (x_centre ifg)) * x_size ifg)\<^sup>2 +
           (real_of_int (int (k div ncols ifg) - int (y_centre ifg)) * y_size ifg)\<^sup>2) / 1000"

definition inscribed_radius :: "Ifg \<Rightarrow> real" where
  "inscribed_radius ifg =
     min (real (x_centre ifg) * x_size ifg) (real (y_centre ifg) * y_size ifg) / 1000"

definition truncated_cells :: "Ifg \<Rightarrow> nat list" where
  "truncated_cells ifg =
     [0..<min (nat \<lceil>real (num_cells ifg) / 2\<rceil> + nrows ifg) (num_cells ifg)]"

definition surviving_cells :: "Ifg \<Rightarrow> nat list" where
  "surviving_cells ifg =
     filter (\<lambda>k. cell_dist ifg k < inscribed_radius ifg) (truncated_cells ifg)"

definition max_value :: "npfloat list \<Rightarrow> npfloat" where
  "max_value vs =
     (if NaN \<in> set vs then NaN else Float (Max (set (concat (map nf_finite vs)))))"


text \<open>
  For the statement about the fit: the mean autocorrelation of the surviving points in
  bin \<open>b\<close> (NaN for an empty bin), and the residual norm of the model
  \<open>amp * exp (- alpha * r)\<close> against the per-bin means, bin \<open>b\<close> standing at the
  distance \<open>b * bin_width\<close>.
\<close>

definition bin_mean :: "real \<Rightarrow> (real \<times> npfloat) list \<Rightarrow> nat \<Rightarrow> npfloat" where
  "bin_mean bin_width points b =
     np_mean (map snd (filter (\<lambda>(r, a). \<lceil>r / bin_width\<rceil> = int b) points))"

definition exp_model_residual :: "npfloat \<Rightarrow> real \<Rightarrow> npfloat list \<Rightarrow> real \<Rightarrow> npfloat" where
  "exp_model_residual amp bin_width means alpha =
     np_norm (map (\<lambda>b. nf_sub (means ! b) (nf_mul amp (Float (exp (- alpha * (real b * bin_width))))))
                  [0..<length means])"

text \<open>
  What the spectral method of lines 104-108 computes, in exact arithmetic: the
  circular autocorrelation of the phase (Wiener-Khinchin), divided by the count of
  non-zero samples, with the zero lag moved to row \<open>nrows div 2\<close> and column
  \<open>ncols div 2\<close> by \<open>fftshift\<close>. One NaN in the phase, or a phase of zeros only,
  makes every value NaN.
\<close>

definition pixel_val :: "pixel \<Rightarrow> real" where
  "pixel_val v = (case v of None \<Rightarrow> 0 | Some x \<Rightarrow> x)"

definition autocorr_circular :: "pixel list list \<Rightarrow> npfloat list list" where
  "autocorr_circular phase =
     (let nr = length phase;
          nc = (case phase of [] \<Rightarrow> 0 | row # _ \<Rightarrow> length row);
          nzc = length (filter (\<lambda>v. v \<noteq> Some 0) (concat phase))
      in if list_ex (\<lambda>v. v = None) (concat phase) \<or> nzc = 0
         then map (map (\<lambda>v. NaN)) phase
         else map (\<lambda>r. map (\<lambda>c.
                Float (sum_list (map (\<lambda>i. sum_list (map (\<lambda>j.
                          pixel_val (phase ! i ! j) *
                          pixel_val (phase ! ((i + r + nr - nr div 2) mod nr)
                                           ! ((j + c + nc - nc div 2) mod nc)))
                        [0..<nc])) [0..<nr]) / real nzc))
              [0..<nc]) [0..<nr])"

text \<open>
  Modelled from the spec: \<open>shared.nan_and_mm_convert\<close>, the unit and NaN conversion
  of the interferogram abstraction. The spec has \<open>cvd\<close> convert the phase to
  displacement units; a phase in radians is multiplied by a factor fixed by the
  wavelength (here 9/2), once, and the object is marked as converted. With NaN
  conversion configured the object is marked as nan-converted (no sample of the
  examples holds the no-data value).
\<close>

definition mm_per_radian :: real where
  "mm_per_radian = 9 / 2"

definition convert_example :: "Ifg \<Rightarrow> params \<Rightarrow> Ifg" where
  "convert_example ifg params =
     (let ifg = (if NAN_CONVERSION params then ifg\<lparr>nan_converted := True\<rparr> else ifg)
      in if mm_converted ifg then ifg
         else ifg\<lparr>phase_data := map (map (map_option (\<lambda>v. v * mm_per_radian))) (phase_data ifg),
                  mm_converted := True\<rparr>)"

text \<open>
  Example inputs. A raster of 4 rows and 4 columns with square pixels of 1000 m, whose
  phase has a single non-zero sample, already converted; the same raster still in
  radians; and a raster of 2 rows and 4 columns with pixels of 1000 m by 3000 m whose
  phase alternates in sign along a row. The collaborators: every path opens as the
  first raster, except \<open>radians.tif\<close> and \<open>wide.tif\<close>, which open as the
  second and the third; the spectral method in exact arithmetic (\<open>grid44\<close> and
  \<open>grid24\<close> are its values on the first and the third raster); a write-back that fails
  on a read-only object and otherwise leaves the object as it is; a minimiser that
  returns its start value; \<open>str\<close> on the values that occur.
\<close>

definition phase44 :: "pixel list list" where
  "phase44 = [[Some 1, Some 0, Some 0, Some 0],
              [Some 0, Some 0, Some 0, Some 0],
              [Some 0, Some 0, Some 0, Some 0],
              [Some 0, Some 0, Some 0, Some 0]]"

definition ifg44 :: Ifg where
  "ifg44 = \<lparr>master = 1, slave = 2, nrows = 4, ncols = 4, data_path = ''a.tif'',
            phase_data = phase44, meta_data = Map.empty,
            x_size = 1000, y_size = 1000, x_centre = 2, y_centre = 2, num_cells = 16,
            nan_converted = True, mm_converted = True, is_read_only = True,
            ifg_nan_fraction = 0, ifg_time_span = 1\<rparr>"

definition ifg44_radians :: Ifg where
  "ifg44_radians = ifg44\<lparr>mm_converted := False\<rparr>"

definition phase24 :: "pixel list list" where
  "phase24 = [[Some 1, Some (-1), Some 1, Some (-1)],
              [Some 1, Some (-1), Some 1, Some (-1)]]"

definition ifg24 :: Ifg where
  "ifg24 = \<lparr>master = 1, slave = 2, nrows = 2, ncols = 4, data_path = ''wide.tif'',
            phase_data = phase24, meta_data = Map.empty,
            x_size = 1000, y_size = 3000, x_centre = 2, y_centre = 1, num_cells = 8,
            nan_converted = True, mm_converted = True, is_read_only = True,
            ifg_nan_fraction = 0, ifg_time_span = 1\<rparr>"

definition str_float_example :: "real \<Rightarrow> string" where
  "str_float_example x =
     (if x = 1 then ''1.0'' else if x = -1 then ''-1.0'' else if x = 0 then ''0.0'' else ''?'')"

definition cvd_ext_example :: cvd_ext where
  "cvd_ext_example =
     \<lparr>open_path = (\<lambda>p readonly. (if p = ''wide.tif'' then ifg24
                                     else if p = ''radians.tif'' then ifg44_radians else ifg44)
                                    \<lparr>data_path := p, is_read_only := (readonly \<noteq> Some False)\<rparr>),
      nan_and_mm_convert = convert_example,
      autocorr_grid = autocorr_circular,
      fmin = (\<lambda>objective x0. Float x0),
      write_modified_phase = (\<lambda>ifg. if is_read_only ifg then Inl IOError else Inr ifg),
      str_float = str_float_example,
      PYRATE_MAXVAR = ''CVD_MAXVAR'',
      PYRATE_ALPHA = ''CVD_ALPHA''\<rparr>"

definition grid44 :: "npfloat list list" where
  "grid44 = [[Float 0, Float 0, Float 0, Float 0],
             [Float 0, Float 0, Float 0, Float 0],
             [Float 0, Float 0, Float 1, Float 0],
             [Float 0, Float 0, Float 0, Float 0]]"


section \<open>Proofs: the temporal variance-covariance matrix\<close>

subsection \<open>The epoch id map is total and injective on the dates it was built from\<close>

lemma ids_total: "d \<in> set dates \<Longrightarrow> \<exists>n. master_slave_ids dates d = Some n"
proof -
  assume d: "d \<in> set dates"
  let ?dset = "sort (remdups dates)"
  have "d \<in> set ?dset" using d by simp
  moreover have "length ?dset = length [0..<length ?dset]" by simp
  ultimately have "\<exists>y. map_of (zip ?dset [0..<length ?dset]) d = Some y"
    using map_of_zip_is_Some by metis
  then show ?thesis by (simp add: master_slave_ids_def Let_def)
qed

lemma ids_inj:
  assumes a: "master_slave_ids dates a = Some n" and b: "master_slave_ids dates b = Some n"
  shows "a = b"
proof -
  let ?dset = "sort (remdups dates)"
  let ?ns = "[0..<length ?dset]"
  from a have "(a, n) \<in> set (zip ?dset ?ns)"
    by (auto simp: master_slave_ids_def Let_def dest: map_of_SomeD)
  then obtain i where i: "i < length ?dset" "?dset ! i = a" "?ns ! i = n"
    by (auto simp: in_set_zip)
  from b have "(b, n) \<in> set (zip ?dset ?ns)"
    by (auto simp: master_slave_ids_def Let_def dest: map_of_SomeD)
  then obtain j where j: "j < length ?dset" "?dset ! j = b" "?ns ! j = n"
    by (auto simp: in_set_zip)
  from i j have "i = j" by simp
  with i j show ?thesis by simp
qed

lemma comprehension_Preread:
  "comprehension getattr_master (map Preread ps) = Inr (map master ps)"
  "comprehension getattr_slave (map Preread ps) = Inr (map slave ps)"
  by (induction ps) auto

lemma ids_of_Preread:
  assumes "ids (master g) = Some m" "ids (slave g) = Some s"
  shows "ids_of ids (Preread g) = Inr (m, s)"
  using assms by (simp add: ids_of_def dict_get_def)

lemma vcm_row_ok:
  assumes "\<forall>g \<in> set l. (\<exists>m. ids (master g) = Some m) \<and> (\<exists>s. ids (slave g) = Some s)"
  shows "vcm_row ids mas1 slv1 (map Preread l) =
         Inr (map (\<lambda>g. vcm_pat_entry mas1 slv1 (the (ids (master g))) (the (ids (slave g)))) l)"
  using assms
proof (induction l)
  case Nil then show ?case by simp
next
  case (Cons g l)
  then obtain m s where "ids (master g) = Some m" "ids (slave g) = Some s" by auto
  with Cons show ?case by (simp add: ids_of_Preread)
qed

lemma vcm_rows_ok:
  assumes "\<forall>g \<in> set every. (\<exists>m. ids (master g) = Some m) \<and> (\<exists>s. ids (slave g) = Some s)"
    and "set l \<subseteq> set every"
  shows "vcm_rows ids (map Preread every) (map Preread l) =
         Inr (map (\<lambda>f. map (\<lambda>g. vcm_pat_entry (the (ids (master f))) (the (ids (slave f)))
                                   (the (ids (master g))) (the (ids (slave g)))) every) l)"
  using assms(2)
proof (induction l)
  case Nil
  then show ?case by simp
next
  case (Cons f l)
  then have "f \<in> set every" by simp
  with assms(1) obtain m s where "ids (master f) = Some m" "ids (slave f) = Some s" by blast
  with Cons vcm_row_ok[OF assms(1)] show ?case by (simp add: ids_of_Preread)
qed

lemma pat_entry_cases:
  assumes "(mf = mg) = (a = c)" "(sf = sg) = (b = d)" "(mf = sg) = (a = d)" "(sf = mg) = (b = c)"
  shows "vcm_pat_entry mf sf mg sg =
         (if a = c \<and> b = d then 1 else if a = d \<or> b = c then - (1/2)
          else if a = c \<or> b = d then 1/2 else 0)"
  unfolding vcm_pat_entry_def Let_def using assms by auto

lemma ids_eq_iff:
  assumes "a \<in> set dates" "b \<in> set dates"
  shows "(the (master_slave_ids dates a) = the (master_slave_ids dates b)) = (a = b)"
proof -
  obtain n k where nk: "master_slave_ids dates a = Some n" "master_slave_ids dates b = Some k"
    using assms ids_total by blast
  show ?thesis
  proof
    assume "the (master_slave_ids dates a) = the (master_slave_ids dates b)"
    with nk have "master_slave_ids dates b = Some n" by simp
    with nk(1) show "a = b" by (rule ids_inj)
  next
    assume "a = b" then show "the (master_slave_ids dates a) = the (master_slave_ids dates b)" by simp
  qed
qed

lemma pat_entry_coeff:
  assumes "f \<in> set ifgs" "g \<in> set ifgs"
  defines "ids \<equiv> master_slave_ids (map master ifgs @ map slave ifgs)"
  shows "vcm_pat_entry (the (ids (master f))) (the (ids (slave f)))
                        (the (ids (master g))) (the (ids (slave g))) = vcm_coeff f g"
proof -
  have mem: "master f \<in> set (map master ifgs @ map slave ifgs)"
            "slave f \<in> set (map master ifgs @ map slave ifgs)"
            "master g \<in> set (map master ifgs @ map slave ifgs)"
            "slave g \<in> set (map master ifgs @ map slave ifgs)"
    using assms(1,2) by auto
  show ?thesis
    unfolding ids_def vcm_coeff_def
    by (rule pat_entry_cases) (rule ids_eq_iff[OF mem(1) mem(3)] ids_eq_iff[OF mem(2) mem(4)]
         ids_eq_iff[OF mem(1) mem(4)] ids_eq_iff[OF mem(2) mem(3)])+
qed


lemma vcm_rows_coeff:
  "vcm_rows (master_slave_ids (map master ifgs @ map slave ifgs)) (map Preread ifgs) (map Preread ifgs) =
   Inr (map (\<lambda>f. map (\<lambda>g. vcm_coeff f g) ifgs) ifgs)"
proof -
  let ?dates = "map master ifgs @ map slave ifgs"
  let ?ids = "master_slave_ids ?dates"
  have tot: "\<forall>g \<in> set ifgs. (\<exists>m. ?ids (master g) = Some m) \<and> (\<exists>s. ?ids (slave g) = Some s)"
  proof
    fix g assume "g \<in> set ifgs"
    then have "master g \<in> set ?dates" "slave g \<in> set ?dates" by auto
    then show "(\<exists>m. ?ids (master g) = Some m) \<and> (\<exists>s. ?ids (slave g) = Some s)"
      using ids_total by blast
  qed
  have "vcm_rows ?ids (map Preread ifgs) (map Preread ifgs) =
        Inr (map (\<lambda>f. map (\<lambda>g. vcm_pat_entry (the (?ids (master f))) (the (?ids (slave f)))
                                   (the (?ids (master g))) (the (?ids (slave g)))) ifgs) ifgs)"
    by (rule vcm_rows_ok[OF tot]) simp
  also have "(map (\<lambda>f. map (\<lambda>g. vcm_pat_entry (the (?ids (master f))) (the (?ids (slave f)))
                                   (the (?ids (master g))) (the (?ids (slave g)))) ifgs) ifgs)
            = map (\<lambda>f. map (\<lambda>g. vcm_coeff f g) ifgs) ifgs"
    by (simp add: pat_entry_coeff)
  finally show ?thesis .
qed

text \<open>The matrix \<open>get_vcmt\<close> returns for a list of interferogram snapshots.\<close>

lemma get_vcmt_list_matrix:
  assumes "length maxvar = length ifgs"
  shows "get_vcmt (IfgList (map Preread ifgs)) maxvar =
         Inr (map (\<lambda>i. map (\<lambda>j. nf_mul (nf_mul (np_sqrt (maxvar ! i)) (np_sqrt (maxvar ! j)))
                                         (Float (vcm_coeff (ifgs ! i) (ifgs ! j))))
                     [0..<length ifgs]) [0..<length ifgs])"
proof -
  let ?n = "length ifgs"
  let ?std = "map np_sqrt maxvar"
  have "map2 (\<lambda>rt rp. map2 (\<lambda>t p. nf_mul t (Float p)) rt rp)
          (map (\<lambda>si. map (\<lambda>sj. nf_mul si sj) ?std) ?std)
          (map (\<lambda>f. map (\<lambda>g. vcm_coeff f g) ifgs) ifgs)
        = map (\<lambda>i. map (\<lambda>j. nf_mul (nf_mul (np_sqrt (maxvar ! i)) (np_sqrt (maxvar ! j)))
                                         (Float (vcm_coeff (ifgs ! i) (ifgs ! j))))
                     [0..<?n]) [0..<?n]"
    using assms by (intro nth_equalityI) (simp_all add: nth_equalityI)
  then show ?thesis
    using assms by (simp add: get_vcmt_def Let_def comprehension_Preread vcm_rows_coeff)
qed

lemma vcm_coeff_sym: "vcm_coeff a b = vcm_coeff b a"
  by (auto simp: vcm_coeff_def)

lemma nf_mul_commute: "nf_mul a b = nf_mul b a"
  by (cases a; cases b) simp_all

lemma nf_mul_sqrt_nonneg:
  assumes "0 \<le> x" "0 \<le> y"
  shows "nf_mul (nf_mul (np_sqrt x) (np_sqrt y)) (Float c) = Float (sqrt x * sqrt y * c)"
  using assms by (simp add: np_sqrt_def)

lemma nf_mul_sqrt_negative:
  assumes "x < 0 \<or> y < 0"
  shows "nf_mul (nf_mul (np_sqrt x) (np_sqrt y)) (Float c) = NaN"
  using assms by (cases "x < 0"; cases "y < 0") (simp_all add: np_sqrt_def)

lemma vcm_coeff_orders_agree:
  assumes "master a \<noteq> slave a" "master b \<noteq> slave b"
  shows "vcm_coeff_claimed a b = vcm_coeff a b"
  using assms by (auto simp: vcm_coeff_def vcm_coeff_claimed_def)

text \<open>
  Claim C1 (as amended). For every list of N interferograms and every length-N maxvar
  vector, \<open>get_vcmt\<close> returns an N by N matrix whose entry (i,j) is
  sqrt(maxvar[i]) * sqrt(maxvar[j]) * C[i,j] (which is NaN when maxvar[i] or maxvar[j]
  is negative), where C[i,j] is 1 if i and j have equal master and equal slave epochs,
  else -0.5 if the master of one equals the slave of the other, else 0.5 if they share a
  master or a slave epoch, else 0; entry (i,j) equals entry (j,i) wherever maxvar[i]
  and maxvar[j] are not negative. (The order of the 0.5 and -0.5 cases matters only for
  an interferogram whose master and slave epochs coincide, see
  \<open>vcm_coeff_orders_agree\<close>.)
\<close>

theorem get_vcmt_entries:
  assumes "length maxvar = length ifgs"
  shows "\<exists>M. get_vcmt (IfgList (map Preread ifgs)) maxvar = Inr M \<and> length M = length ifgs \<and>
     (\<forall>i<length ifgs. length (M ! i) = length ifgs \<and>
        (\<forall>j<length ifgs.
            (0 \<le> maxvar ! i \<and> 0 \<le> maxvar ! j \<longrightarrow>
               M ! i ! j = Float (sqrt (maxvar ! i) * sqrt (maxvar ! j) * vcm_coeff (ifgs ! i) (ifgs ! j))
               \<and> M ! i ! j = M ! j ! i)
          \<and> (maxvar ! i < 0 \<or> maxvar ! j < 0 \<longrightarrow> M ! i ! j = NaN)))"
  unfolding get_vcmt_list_matrix[OF assms]
  by (simp add: nf_mul_sqrt_nonneg nf_mul_sqrt_negative vcm_coeff_sym mult.commute)



theorem get_vcmt_entries_witness:
  "length [4, 9, - 16 :: real] = length [ifgA, ifgB, ifgC] \<and>
   (\<exists>M. get_vcmt (IfgList (map Preread [ifgA, ifgB, ifgC])) [4, 9, - 16] = Inr M \<and>
        M ! 0 ! 1 = Float 3 \<and> M ! 1 ! 0 = Float 3 \<and> M ! 0 ! 2 = NaN)"
proof -
  let ?l = "[ifgA, ifgB, ifgC]"
  let ?mv = "[4, 9, - 16 :: real]"
  have len: "length ?mv = length ?l" by simp
  from get_vcmt_entries[OF len] obtain M where
    M: "get_vcmt (IfgList (map Preread ?l)) ?mv = Inr M" and
    E: "\<forall>i<length ?l. length (M ! i) = length ?l \<and>
          (\<forall>j<length ?l.
            (0 \<le> ?mv ! i \<and> 0 \<le> ?mv ! j \<longrightarrow>
               M ! i ! j = Float (sqrt (?mv ! i) * sqrt (?mv ! j) * vcm_coeff (?l ! i) (?l ! j))
               \<and> M ! i ! j = M ! j ! i)
          \<and> (?mv ! i < 0 \<or> ?mv ! j < 0 \<longrightarrow> M ! i ! j = NaN))"
    by blast
  have i0: "(0::nat) < length ?l" and i1: "(1::nat) < length ?l" and i2: "(2::nat) < length ?l"
    by simp_all
  from E i0 have r0: "\<forall>j<length ?l.
            (0 \<le> ?mv ! 0 \<and> 0 \<le> ?mv ! j \<longrightarrow>
               M ! 0 ! j = Float (sqrt (?mv ! 0) * sqrt (?mv ! j) * vcm_coeff (?l ! 0) (?l ! j))
               \<and> M ! 0 ! j = M ! j ! 0)
          \<and> (?mv ! 0 < 0 \<or> ?mv ! j < 0 \<longrightarrow> M ! 0 ! j = NaN)"
    by blast
  from r0 i1 have a: "0 \<le> ?mv ! 0 \<and> 0 \<le> ?mv ! 1 \<longrightarrow>
               M ! 0 ! 1 = Float (sqrt (?mv ! 0) * sqrt (?mv ! 1) * vcm_coeff (?l ! 0) (?l ! 1))
               \<and> M ! 0 ! 1 = M ! 1 ! 0"
    by blast
  from r0 i2 have b: "?mv ! 0 < 0 \<or> ?mv ! 2 < 0 \<longrightarrow> M ! 0 ! 2 = NaN"
    by blast
  have s4: "sqrt 4 = 2" and s9: "sqrt 9 = 3"
    using real_sqrt_abs[of 2] real_sqrt_abs[of 3] by simp_all
  have pre: "0 \<le> ?mv ! 0 \<and> 0 \<le> ?mv ! 1" by simp
  from a pre have e01': "M ! 0 ! 1 = Float (sqrt (?mv ! 0) * sqrt (?mv ! 1) * vcm_coeff (?l ! 0) (?l ! 1))"
    and s01: "M ! 0 ! 1 = M ! 1 ! 0"
    by blast+
  from e01' have e01: "M ! 0 ! 1 = Float (sqrt 4 * sqrt 9 * vcm_coeff ifgA ifgB)"
    by simp
  from e01 have v01: "M ! 0 ! 1 = Float 3"
    by (simp add: s4 s9 vcm_coeff_def ifgA_def ifgB_def)
  from b have v02: "M ! 0 ! 2 = NaN" by (simp add: numeral_2_eq_2)
  from s01 v01 have v10: "M ! 1 ! 0 = Float 3" by simp
  show ?thesis using len M v01 v10 v02 by blast
qed

text \<open>
  Against C1 as stated: for Z(1,1) and A(1,2), which share only the master epoch, the
  entry is -0.5 where the claimed order gives 0.5, since the slave of Z is the master
  of A.
\<close>

theorem get_vcmt_claimed_order_counterexample:
  "get_vcmt (IfgList [Preread ifgZ, Preread ifgA]) [1, 1]
     = Inr [[Float 1, Float (- (1/2))], [Float (- (1/2)), Float 1]] \<and>
   sqrt 1 * sqrt 1 * vcm_coeff_claimed ifgZ ifgA = 1/2"
  by (simp add: get_vcmt_def Let_def master_slave_ids_def ifgZ_def ifgA_def dict_get_def
      ids_of_def np_sqrt_def vcm_pat_entry_def vcm_coeff_claimed_def)

subsection \<open>The registry dictionary as argument\<close>

lemma sort_key_fst_keys:
  assumes "distinct (map fst F)"
  shows "map fst (sort_key fst F) = sorted_list_of_set (fst ` set F)"
proof (rule sorted_distinct_set_unique)
  show "sorted (map fst (sort_key fst F))" by (rule sorted_sort_key)
  have "mset (map fst (sort_key fst F)) = mset (map fst F)" by simp
  then show "distinct (map fst (sort_key fst F))"
    using assms mset_eq_imp_distinct_iff by blast
  show "sorted (sorted_list_of_set (fst ` set F))" by simp
  show "distinct (sorted_list_of_set (fst ` set F))" by simp
  show "set (map fst (sort_key fst F)) = set (sorted_list_of_set (fst ` set F))" by simp
qed

lemma preread_keys:
  assumes "distinct (map fst items)"
  shows "fst ` set (filter (\<lambda>(k, v). isinstance_PrereadIfg v) items)
         = {k. \<exists>p. map_of items k = Some (Preread p)}"
proof -
  have iff: "\<And>k v. ((k, v) \<in> set items) = (map_of items k = Some v)"
    using assms by auto
  have inst: "\<And>v. isinstance_PrereadIfg v = (\<exists>p. v = Preread p)"
    by (case_tac v) auto
  show ?thesis
    by (auto simp: image_iff iff inst)
qed

lemma preread_values:
  assumes "\<forall>kv \<in> set F. map_of items (fst kv) = Some (snd kv) \<and> isinstance_PrereadIfg (snd kv)"
  shows "map snd F
         = map Preread (map (\<lambda>k. case map_of items k of Some (Preread p) \<Rightarrow> p) (map fst F))"
  using assms
proof (induction F)
  case Nil then show ?case by simp
next
  case (Cons kv F)
  obtain k v where kv: "kv = (k, v)" by (cases kv)
  with Cons.prems have "map_of items k = Some v" "isinstance_PrereadIfg v" by auto
  then obtain p where "v = Preread p" by (cases v) auto
  with kv Cons \<open>map_of items k = Some v\<close> show ?case by simp
qed

lemma dict_ifgs_sorted:
  assumes "distinct (map fst items)"
  shows "dict_ifgs items
         = map Preread (map (\<lambda>k. case map_of items k of Some (Preread p) \<Rightarrow> p)
               (sorted_list_of_set {k. \<exists>p. map_of items k = Some (Preread p)}))"
proof -
  let ?F = "filter (\<lambda>(k, v). isinstance_PrereadIfg v) items"
  have dF: "distinct (map fst ?F)" using assms by (simp add: distinct_map_filter)
  have mem: "\<forall>kv \<in> set (sort_key fst ?F).
               map_of items (fst kv) = Some (snd kv) \<and> isinstance_PrereadIfg (snd kv)"
    using assms by auto
  have "dict_ifgs items = map snd (sort_key fst ?F)"
    by (simp add: dict_ifgs_def Let_def)
  also have "\<dots> = map Preread (map (\<lambda>k. case map_of items k of Some (Preread p) \<Rightarrow> p)
                     (map fst (sort_key fst ?F)))"
    by (rule preread_values[OF mem])
  also have "map fst (sort_key fst ?F) = sorted_list_of_set (fst ` set ?F)"
    by (rule sort_key_fst_keys[OF dF])
  also have "fst ` set ?F = {k. \<exists>p. map_of items k = Some (Preread p)}"
    by (rule preread_keys[OF assms])
  finally show ?thesis .
qed

lemma get_vcmt_dict_list:
  "get_vcmt (IfgDict items) maxvar = get_vcmt (IfgList (dict_ifgs items)) maxvar"
  by (simp add: get_vcmt_def)

lemma finite_preread_keys: "finite {k. \<exists>p. map_of items k = Some (Preread p)}"
proof (rule finite_subset)
  show "{k. \<exists>p. map_of items k = Some (Preread p)} \<subseteq> dom (map_of items)" by auto
  show "finite (dom (map_of items))" by (rule finite_dom_map_of)
qed

text \<open>
  Without the filter of line 237 a registry entry that is not a \<open>PrereadIfg\<close> reaches
  the attribute access of line 245, which raises.
\<close>

lemma get_vcmt_unfiltered_raises:
  "get_vcmt (IfgList (map snd (sort_key fst registry_example))) [4, 9, 16, 1, 1, 1, 1]
   = Inl AttributeError"
  by (simp add: get_vcmt_def Let_def registry_example_def less_eq_char_def less_char_def)


text \<open>
  Claim C9. When \<open>get_vcmt\<close> receives the registry dictionary (items with distinct
  keys), the entries whose value is not a \<open>PrereadIfg\<close> are discarded and the
  remaining interferograms are processed in ascending order of their path keys: with
  \<open>paths\<close> the sorted list of the keys that hold a \<open>PrereadIfg\<close>, the call returns
  a matrix, and row and column i of it belong to the interferogram stored under
  \<open>paths ! i\<close>. (Were a global entry not discarded, the call would raise, see
  \<open>get_vcmt_unfiltered_raises\<close>.)
\<close>

theorem get_vcmt_dict_sorted_paths:
  assumes "distinct (map fst items)"
    and "paths = sorted_list_of_set {k. \<exists>p. map_of items k = Some (Preread p)}"
    and "length maxvar = length paths"
  shows "\<exists>M. get_vcmt (IfgDict items) maxvar = Inr M \<and> length M = length paths \<and>
     (\<forall>i<length paths. length (M ! i) = length paths \<and>
        (\<forall>j<length paths. \<exists>p q.
            map_of items (paths ! i) = Some (Preread p) \<and>
            map_of items (paths ! j) = Some (Preread q) \<and>
            M ! i ! j = nf_mul (nf_mul (np_sqrt (maxvar ! i)) (np_sqrt (maxvar ! j)))
                               (Float (vcm_coeff p q))))"
proof -
  let ?get = "\<lambda>k. case map_of items k of Some (Preread p) \<Rightarrow> p"
  define ifgs where "ifgs = map ?get paths"
  have di: "dict_ifgs items = map Preread ifgs"
    using dict_ifgs_sorted[OF assms(1)] assms(2) by (simp add: ifgs_def)
  have n: "length ifgs = length paths" by (simp add: ifgs_def)
  have len: "length maxvar = length ifgs" using assms(3) n by simp
  have look: "\<And>i. i < length paths \<Longrightarrow> \<exists>p. map_of items (paths ! i) = Some (Preread p) \<and> ifgs ! i = p"
  proof -
    fix i assume i: "i < length paths"
    then have "paths ! i \<in> set paths" by simp
    then have "paths ! i \<in> {k. \<exists>p. map_of items k = Some (Preread p)}"
      using assms(2) finite_preread_keys[of items] by simp
    then obtain p where p: "map_of items (paths ! i) = Some (Preread p)" by blast
    then have "?get (paths ! i) = p" by simp
    with i have "ifgs ! i = p" by (simp add: ifgs_def)
    with p show "\<exists>p. map_of items (paths ! i) = Some (Preread p) \<and> ifgs ! i = p" by blast
  qed
  define M where "M = map (\<lambda>i. map (\<lambda>j. nf_mul (nf_mul (np_sqrt (maxvar ! i)) (np_sqrt (maxvar ! j)))
                                         (Float (vcm_coeff (ifgs ! i) (ifgs ! j))))
                     [0..<length ifgs]) [0..<length ifgs]"
  have Meq: "get_vcmt (IfgDict items) maxvar = Inr M"
    unfolding get_vcmt_dict_list di M_def by (rule get_vcmt_list_matrix[OF len])
  have entries: "\<exists>p q. map_of items (paths ! i) = Some (Preread p) \<and>
            map_of items (paths ! j) = Some (Preread q) \<and>
            M ! i ! j = nf_mul (nf_mul (np_sqrt (maxvar ! i)) (np_sqrt (maxvar ! j)))
                               (Float (vcm_coeff p q))"
    if ij: "i < length paths" "j < length paths" for i j
  proof -
    from look[OF ij(1)] obtain p where p: "map_of items (paths ! i) = Some (Preread p)" "ifgs ! i = p"
      by blast
    from look[OF ij(2)] obtain q where q: "map_of items (paths ! j) = Some (Preread q)" "ifgs ! j = q"
      by blast
    have "M ! i ! j = nf_mul (nf_mul (np_sqrt (maxvar ! i)) (np_sqrt (maxvar ! j)))
                               (Float (vcm_coeff p q))"
      using ij n p(2) q(2) by (simp add: M_def)
    with p(1) q(1) show ?thesis by blast
  qed
  have rows: "length (M ! i) = length paths" if "i < length paths" for i
    using that n by (simp add: M_def)
  have "length M = length paths" using n by (simp add: M_def)
  with Meq entries rows show ?thesis by blast
qed

theorem get_vcmt_dict_sorted_paths_witness:
  "distinct (map fst registry_example) \<and>
   [''a.tif'', ''b.tif'', ''c.tif''] =
     sorted_list_of_set {k. \<exists>p. map_of registry_example k = Some (Preread p)} \<and>
   length [4, 9, 16 :: real] = length [''a.tif'', ''b.tif'', ''c.tif''] \<and>
   (\<exists>M. get_vcmt (IfgDict registry_example) [4, 9, 16] = Inr M \<and> length M = 3 \<and>
        M ! 0 ! 2 = Float (- 4))"
proof -
  let ?paths = "[''a.tif'', ''b.tif'', ''c.tif'']"
  let ?mv = "[4, 9, 16 :: real]"
  have d: "distinct (map fst registry_example)"
    by (simp add: registry_example_def)
  have keys: "{k. \<exists>p. map_of registry_example k = Some (Preread p)} = set ?paths"
    by (auto simp: registry_example_def split: if_splits)
  have srt: "sorted ?paths" by (simp add: less_eq_char_def less_char_def)
  have ps: "?paths = sorted_list_of_set {k. \<exists>p. map_of registry_example k = Some (Preread p)}"
    unfolding keys using srt by (simp add: sorted_list_of_set.idem_if_sorted_distinct)
  have len: "length ?mv = length ?paths" by simp
  from get_vcmt_dict_sorted_paths[OF d ps len] obtain M where
    M: "get_vcmt (IfgDict registry_example) ?mv = Inr M" "length M = length ?paths" and
    E: "\<forall>i<length ?paths. length (M ! i) = length ?paths \<and>
        (\<forall>j<length ?paths. \<exists>p q.
            map_of registry_example (?paths ! i) = Some (Preread p) \<and>
            map_of registry_example (?paths ! j) = Some (Preread q) \<and>
            M ! i ! j = nf_mul (nf_mul (np_sqrt (?mv ! i)) (np_sqrt (?mv ! j)))
                               (Float (vcm_coeff p q)))"
    by blast
  have i0: "(0::nat) < length ?paths" and i2: "(2::nat) < length ?paths" by simp_all
  from E i0 have "\<forall>j<length ?paths. \<exists>p q.
            map_of registry_example (?paths ! 0) = Some (Preread p) \<and>
            map_of registry_example (?paths ! j) = Some (Preread q) \<and>
            M ! 0 ! j = nf_mul (nf_mul (np_sqrt (?mv ! 0)) (np_sqrt (?mv ! j)))
                               (Float (vcm_coeff p q))"
    by blast
  with i2 obtain p q where
    p: "map_of registry_example (?paths ! 0) = Some (Preread p)" and
    q: "map_of registry_example (?paths ! 2) = Some (Preread q)" and
    e: "M ! 0 ! 2 = nf_mul (nf_mul (np_sqrt (?mv ! 0)) (np_sqrt (?mv ! 2))) (Float (vcm_coeff p q))"
    by blast
  from p have p': "p = ifgA" by (simp add: registry_example_def)
  from q have q': "q = ifgC" by (simp add: registry_example_def numeral_2_eq_2)
  have s4: "sqrt 4 = 2" and s16: "sqrt 16 = 4"
    using real_sqrt_abs[of 2] real_sqrt_abs[of 4] by simp_all
  from e have "M ! 0 ! 2 = Float (- 4)"
    by (simp add: p' q' s4 s16 np_sqrt_def numeral_2_eq_2 vcm_coeff_def ifgA_def ifgC_def)
  with d ps len M show ?thesis by simp
qed


section \<open>Proofs: the reference pixel\<close>

text \<open>
  Claim C6 (as amended). A user-supplied reference-pixel coordinate with
  refx > ncols - 1 or refy > nrows - 1 (of the first interferogram's raster) makes
  \<open>ref_pixel_calc\<close> fail with a ValueError before any search; a supplied coordinate
  with 1 <= refx <= ncols - 1 and 1 <= refy <= nrows - 1 is reused without running the
  search.
\<close>

theorem ref_pixel_calc_bounds:
  assumes "ifg_paths = p0 # rest"
  shows "(REFX params > int (ncols (open_ifg p0)) - 1 \<or> REFY params > int (nrows (open_ifg p0)) - 1
            \<longrightarrow> ref_pixel_calc open_ifg find_ref_pixel ifg_paths params = ([], Inl ValueError))
       \<and> (0 < REFX params \<and> REFX params \<le> int (ncols (open_ifg p0)) - 1 \<and>
          0 < REFY params \<and> REFY params \<le> int (nrows (open_ifg p0)) - 1
            \<longrightarrow> ref_pixel_calc open_ifg find_ref_pixel ifg_paths params =
                  ([Reusing_reference_pixel (REFX params) (REFY params)],
                   Inr (REFX params, REFY params)))"
  using assms by (auto simp: ref_pixel_calc_def Let_def)

theorem ref_pixel_calc_bounds_witness:
  "ref_pixel_calc (\<lambda>p. ifg10) search_7_4 [''a.tif'', ''b.tif''] (params_ref 10 3) = ([], Inl ValueError)
   \<and> ref_pixel_calc (\<lambda>p. ifg10) search_7_4 [''a.tif'', ''b.tif''] (params_ref 3 12) = ([], Inl ValueError)
   \<and> ref_pixel_calc (\<lambda>p. ifg10) search_7_4 [''a.tif'', ''b.tif''] (params_ref 3 9) =
       ([Reusing_reference_pixel 3 9], Inr (3, 9))"
proof -
  have l: "[''a.tif'', ''b.tif''] = ''a.tif'' # [''b.tif'']" by simp
  note b = ref_pixel_calc_bounds[OF l, where open_ifg = "\<lambda>p. ifg10" and find_ref_pixel = search_7_4]
  from b[where params = "params_ref 10 3"] have 1:
    "ref_pixel_calc (\<lambda>p. ifg10) search_7_4 [''a.tif'', ''b.tif''] (params_ref 10 3) = ([], Inl ValueError)"
    by (simp add: params_ref_def ifg10_def)
  from b[where params = "params_ref 3 12"] have 2:
    "ref_pixel_calc (\<lambda>p. ifg10) search_7_4 [''a.tif'', ''b.tif''] (params_ref 3 12) = ([], Inl ValueError)"
    by (simp add: params_ref_def ifg10_def)
  from b[where params = "params_ref 3 9"] have 3:
    "ref_pixel_calc (\<lambda>p. ifg10) search_7_4 [''a.tif'', ''b.tif''] (params_ref 3 9) =
       ([Reusing_reference_pixel 3 9], Inr (3, 9))"
    by (simp add: params_ref_def ifg10_def)
  from 1 2 3 show ?thesis by simp
qed

text \<open>
  Against C6 as stated: the out-of-bounds coordinate (-5, 3) raises no error but starts
  the search, and the in-bounds coordinates (0, 0) and (0, 3) are not reused.
\<close>

theorem ref_pixel_calc_bounds_counterexample:
  "ref_pixel_calc (\<lambda>p. ifg10) search_7_4 [''a.tif'', ''b.tif''] (params_ref (- 5) 3) =
     ([Searching_for_best_reference_pixel, Selected_reference_pixel 4 7], Inr (4, 7))
   \<and> ref_pixel_calc (\<lambda>p. ifg10) search_7_4 [''a.tif'', ''b.tif''] (params_ref 0 0) =
     ([Searching_for_best_reference_pixel, Selected_reference_pixel 4 7], Inr (4, 7))
   \<and> ref_pixel_calc (\<lambda>p. ifg10) search_7_4 [''a.tif'', ''b.tif''] (params_ref 0 3) =
     ([Searching_for_best_reference_pixel, Selected_reference_pixel 4 7], Inr (4, 7))"
  by (simp add: ref_pixel_calc_def Let_def params_ref_def ifg10_def search_7_4_def)

text \<open>
  Claim C10 (as amended). A supplied coordinate with refx <= 0 or refy <= 0, neither
  component of which exceeds its upper bound (refx <= ncols - 1 and refy <= nrows - 1),
  is treated as absent: \<open>ref_pixel_calc\<close> runs the reference-pixel search and returns
  what the search selects, raising no error of its own. In particular (0, 0) is never
  reused on a non-empty raster, and negative coordinates are not reported as a fatal
  input error.
\<close>

theorem ref_pixel_calc_nonpositive_searches:
  assumes "ifg_paths = p0 # rest"
    and "REFX params \<le> 0 \<or> REFY params \<le> 0"
    and "REFX params \<le> int (ncols (open_ifg p0)) - 1"
    and "REFY params \<le> int (nrows (open_ifg p0)) - 1"
  shows "ref_pixel_calc open_ifg find_ref_pixel ifg_paths params =
         (case find_ref_pixel ifg_paths params of
            Inl e \<Rightarrow> ([Searching_for_best_reference_pixel], Inl e)
          | Inr (refy, refx) \<Rightarrow>
              ([Searching_for_best_reference_pixel, Selected_reference_pixel refx refy],
               Inr (refx, refy)))"
  using assms by (auto simp: ref_pixel_calc_def Let_def)

theorem ref_pixel_calc_nonpositive_searches_witness:
  "ref_pixel_calc (\<lambda>p. ifg10) search_7_4 [''a.tif''] (params_ref (- 1) (- 1)) =
     ([Searching_for_best_reference_pixel, Selected_reference_pixel 4 7], Inr (4, 7))"
proof -
  have l: "[''a.tif''] = ''a.tif'' # []" by simp
  have h: "REFX (params_ref (- 1) (- 1)) \<le> 0 \<or> REFY (params_ref (- 1) (- 1)) \<le> 0"
    by (simp add: params_ref_def)
  have bx: "REFX (params_ref (- 1) (- 1)) \<le> int (ncols ((\<lambda>p. ifg10) ''a.tif'')) - 1"
    by (simp add: params_ref_def ifg10_def)
  have by': "REFY (params_ref (- 1) (- 1)) \<le> int (nrows ((\<lambda>p. ifg10) ''a.tif'')) - 1"
    by (simp add: params_ref_def ifg10_def)
  from ref_pixel_calc_nonpositive_searches[OF l h bx by', where find_ref_pixel = search_7_4]
  show ?thesis by (simp add: search_7_4_def)
qed

text \<open>
  Against C10 as stated: the coordinate (-1, 10) on a 10 by 10 raster has refx <= 0,
  yet the upper-bound check on refy comes first and a ValueError is raised; no search
  runs.
\<close>

theorem ref_pixel_calc_nonpositive_counterexample:
  "ref_pixel_calc (\<lambda>p. ifg10) search_7_4 [''a.tif''] (params_ref (- 1) 10) = ([], Inl ValueError)"
  by (simp add: ref_pixel_calc_def Let_def params_ref_def ifg10_def)

section \<open>Proofs: reference-phase estimation\<close>

subsection \<open>Receiving by source and tag does not depend on the arrival order\<close>

lemma Recv_unique:
  assumes "(r, t, d) \<in> set inbox"
    and "\<forall>d'. (r, t, d') \<in> set inbox \<longrightarrow> d' = d"
  shows "Recv inbox r t = Some (d, remove1 (r, t, d) inbox)"
  using assms
proof (induction inbox)
  case Nil then show ?case by simp
next
  case (Cons m inbox)
  obtain s u e where m: "m = (s, u, e)" by (cases m) auto
  show ?case
  proof (cases "s = r \<and> u = t")
    case True
    with Cons.prems(2) m have "e = d" by simp
    with True m show ?thesis by simp
  next
    case False
    with Cons.prems(1) m have in': "(r, t, d) \<in> set inbox" by auto
    from Cons.prems(2) have "\<forall>d'. (r, t, d') \<in> set inbox \<longrightarrow> d' = d" by simp
    with Cons.IH in' have "Recv inbox r t = Some (d, remove1 (r, t, d) inbox)" by blast
    with False m show ?thesis by auto
  qed
qed

lemma recv_shards_any_order:
  assumes "distinct rs"
    and "mset inbox = mset (map (\<lambda>r. (r, r, shard r)) rs)"
    and "\<forall>r \<in> set rs. length (shard r) = length (split_of mpi n r)"
  shows "recv_shards mpi n rs inbox ref_phs = Some (put_shards mpi n shard rs ref_phs)"
  using assms
proof (induction rs arbitrary: inbox ref_phs)
  case Nil then show ?case by simp
next
  case (Cons r rs)
  let ?msg = "\<lambda>r. (r, r, shard r)"
  have set_eq: "set inbox = set (map ?msg (r # rs))"
    using Cons.prems(2) by (metis set_mset_mset)
  then have mem: "(r, r, shard r) \<in> set inbox" by simp
  have uniq: "\<forall>d'. (r, r, d') \<in> set inbox \<longrightarrow> d' = shard r"
    using set_eq by auto
  have rcv: "Recv inbox r r = Some (shard r, remove1 (r, r, shard r) inbox)"
    by (rule Recv_unique[OF mem uniq])
  have rest: "mset (remove1 (r, r, shard r) inbox) = mset (map ?msg rs)"
    using Cons.prems(2) by simp
  have len: "length (shard r) = length (split_of mpi n r)" using Cons.prems(3) by simp
  have into: "recv_into (replicate (length (array_split mpi [0..<n] r)) (Some 0)) (shard r) = Inr (shard r)"
    using len by (simp add: recv_into_def array_split_def)
  have IH: "\<And>a. recv_shards mpi n rs (remove1 (r, r, shard r) inbox) a = Some (put_shards mpi n shard rs a)"
    using Cons.IH[OF _ rest] Cons.prems(1,3) by simp
  show ?case
  proof (cases "np_setitem ref_phs (array_split mpi [0..<n] r) (shard r)")
    case (Inl e)
    then show ?thesis
      by (simp only: recv_shards.simps put_shards.simps Let_def rcv into option.case prod.case sum.case)
  next
    case (Inr a)
    then show ?thesis
      by (simp only: recv_shards.simps put_shards.simps Let_def rcv into option.case prod.case sum.case IH)
  qed
qed


lemma fold_update_length:
  "length (fold (\<lambda>(i, v) a. a[i := v]) ivs arr) = length arr"
  by (induction ivs arbitrary: arr) auto

lemma fold_update_other:
  "i \<notin> fst ` set ivs \<Longrightarrow> fold (\<lambda>(i, v) a. a[i := v]) ivs arr ! i = arr ! i"
  by (induction ivs arbitrary: arr) auto

lemma fold_update_hit:
  assumes "distinct (map fst ivs)" "k < length ivs" "fst (ivs ! k) < length arr"
  shows "fold (\<lambda>(i, v) a. a[i := v]) ivs arr ! fst (ivs ! k) = snd (ivs ! k)"
  using assms
proof (induction ivs arbitrary: arr k)
  case Nil then show ?case by simp
next
  case (Cons iv ivs)
  obtain i v where iv: "iv = (i, v)" by (cases iv)
  show ?case
  proof (cases k)
    case 0
    have "i \<notin> fst ` set ivs" using Cons.prems(1) iv by auto
    then have "fold (\<lambda>(i, v) a. a[i := v]) ivs (arr[i := v]) ! i = arr[i := v] ! i"
      by (rule fold_update_other)
    with 0 iv Cons.prems(3) show ?thesis by simp
  next
    case (Suc k')
    with Cons.prems iv have "fold (\<lambda>(i, v) a. a[i := v]) ivs (arr[i := v]) ! fst (ivs ! k') = snd (ivs ! k')"
      by (intro Cons.IH) auto
    with Suc iv show ?thesis by simp
  qed
qed

lemma np_setitem_ok:
  assumes "set idx \<subseteq> {..<length arr}" "length vals = length idx"
  shows "np_setitem arr idx vals = Inr (fold (\<lambda>(i, v) a. a[i := v]) (zip idx vals) arr)"
proof -
  have "\<not> list_ex (\<lambda>i. length arr \<le> i) idx"
    using assms(1) by (auto simp: list_ex_iff)
  then show ?thesis using assms(2) by (simp add: np_setitem_def)
qed

lemma np_setitem_props:
  assumes "set idx \<subseteq> {..<length arr}" "length vals = length idx" "distinct idx"
  shows "\<exists>arr'. np_setitem arr idx vals = Inr arr' \<and> length arr' = length arr \<and>
           (\<forall>k<length idx. arr' ! (idx ! k) = vals ! k) \<and>
           (\<forall>i. i \<notin> set idx \<longrightarrow> arr' ! i = arr ! i)"
proof -
  let ?arr' = "fold (\<lambda>(i, v) a. a[i := v]) (zip idx vals) arr"
  have 1: "np_setitem arr idx vals = Inr ?arr'" by (rule np_setitem_ok[OF assms(1,2)])
  have 2: "length ?arr' = length arr" by (rule fold_update_length)
  have 3: "?arr' ! (idx ! k) = vals ! k" if "k < length idx" for k
  proof -
    have d: "distinct (map fst (zip idx vals))" using assms(2,3) by simp
    have kl: "k < length (zip idx vals)" using that assms(2) by simp
    have "fst (zip idx vals ! k) < length arr" using that assms(1,2) by (auto simp: subset_iff)
    from fold_update_hit[OF d kl this] show ?thesis using that assms(2) by simp
  qed
  have 4: "?arr' ! i = arr ! i" if "i \<notin> set idx" for i
  proof -
    have "i \<notin> fst ` set (zip idx vals)" using that by (auto dest: set_zip_leftD)
    then show ?thesis by (rule fold_update_other)
  qed
  from 1 2 3 4 show ?thesis by blast
qed


lemma put_shards_props:
  assumes "distinct rs"
    and "\<forall>r \<in> set rs. set (idx r) \<subseteq> {..<n} \<and> distinct (idx r) \<and> length (shard r) = length (idx r)"
    and "\<forall>r \<in> set rs. \<forall>s \<in> set rs. r \<noteq> s \<longrightarrow> set (idx r) \<inter> set (idx s) = {}"
    and "\<forall>r \<in> set rs. array_split mpi [0..<n] r = idx r"
    and "length ref_phs = n"
  shows "\<exists>full. put_shards mpi n shard rs ref_phs = Inr full \<and> length full = n \<and>
           (\<forall>r \<in> set rs. \<forall>k<length (idx r). full ! (idx r ! k) = shard r ! k) \<and>
           (\<forall>i. (\<forall>r \<in> set rs. i \<notin> set (idx r)) \<longrightarrow> full ! i = ref_phs ! i)"
  using assms
proof (induction rs arbitrary: ref_phs)
  case Nil then show ?case by simp
next
  case (Cons r rs)
  have r: "set (idx r) \<subseteq> {..<length ref_phs}" "length (shard r) = length (idx r)" "distinct (idx r)"
    using Cons.prems(2,5) by auto
  from np_setitem_props[OF r] obtain a where
    a: "np_setitem ref_phs (idx r) (shard r) = Inr a" "length a = length ref_phs"
       "\<forall>k<length (idx r). a ! (idx r ! k) = shard r ! k"
       "\<forall>i. i \<notin> set (idx r) \<longrightarrow> a ! i = ref_phs ! i"
    by blast
  have "\<exists>full. put_shards mpi n shard rs a = Inr full \<and> length full = n \<and>
           (\<forall>r \<in> set rs. \<forall>k<length (idx r). full ! (idx r ! k) = shard r ! k) \<and>
           (\<forall>i. (\<forall>r \<in> set rs. i \<notin> set (idx r)) \<longrightarrow> full ! i = a ! i)"
    using Cons.prems a(2) by (intro Cons.IH) auto
  then obtain full where
    f: "put_shards mpi n shard rs a = Inr full" "length full = n"
       "\<forall>r \<in> set rs. \<forall>k<length (idx r). full ! (idx r ! k) = shard r ! k"
       "\<forall>i. (\<forall>r \<in> set rs. i \<notin> set (idx r)) \<longrightarrow> full ! i = a ! i"
    by blast
  have eq: "put_shards mpi n shard (r # rs) ref_phs = Inr full"
    using Cons.prems(4) a(1) f(1) by simp
  have own: "full ! (idx r ! k) = shard r ! k" if "k < length (idx r)" for k
  proof -
    have "idx r ! k \<in> set (idx r)" using that by simp
    moreover have "\<forall>s \<in> set rs. set (idx r) \<inter> set (idx s) = {}"
      using Cons.prems(1,3) by auto
    ultimately have "\<forall>s \<in> set rs. idx r ! k \<notin> set (idx s)" by blast
    with f(4) have "full ! (idx r ! k) = a ! (idx r ! k)" by blast
    with a(3) that show ?thesis by simp
  qed
  have other: "full ! i = ref_phs ! i" if "\<forall>s \<in> set (r # rs). i \<notin> set (idx s)" for i
    using that f(4) a(4) by simp
  from eq f(2,3) own other show ?case by auto
qed

lemma distinct_concat_nth_disjoint:
  "distinct (concat xss) \<Longrightarrow> i < j \<Longrightarrow> j < length xss \<Longrightarrow> set (xss ! i) \<inter> set (xss ! j) = {}"
proof (induction xss arbitrary: i j)
  case Nil then show ?case by simp
next
  case (Cons xs xss)
  from Cons.prems(2) obtain j' where j: "j = Suc j'" by (cases j) auto
  show ?case
  proof (cases i)
    case 0
    have "xss ! j' \<in> set xss" using Cons.prems(3) j by simp
    then have "set (xss ! j') \<subseteq> set (concat xss)" by auto
    moreover have "set xs \<inter> set (concat xss) = {}" using Cons.prems(1) by simp
    ultimately show ?thesis using 0 j by auto
  next
    case (Suc i')
    with Cons.prems j have "set (xss ! i') \<inter> set (xss ! j') = {}"
      by (intro Cons.IH) auto
    with Suc j show ?thesis by simp
  qed
qed

lemma partition_complete_shards:
  assumes "partition_complete mpi n"
  shows "\<forall>r<nprocs mpi. set (split_of mpi n r) \<subseteq> {..<n} \<and> distinct (split_of mpi n r)"
    and "\<forall>r<nprocs mpi. \<forall>s<nprocs mpi. r \<noteq> s \<longrightarrow> set (split_of mpi n r) \<inter> set (split_of mpi n s) = {}"
proof -
  let ?xss = "map (split_of mpi n) [0..<nprocs mpi]"
  have m: "mset (concat ?xss) = mset [0..<n]" using assms by (simp add: partition_complete_def)
  then have d: "distinct (concat ?xss)" by (metis distinct_upt mset_eq_imp_distinct_iff)
  have s: "set (concat ?xss) = {..<n}" using m by (metis atLeast_upt mset_eq_setD)
  show "\<forall>r<nprocs mpi. set (split_of mpi n r) \<subseteq> {..<n} \<and> distinct (split_of mpi n r)"
  proof (intro allI impI)
    fix r assume r: "r < nprocs mpi"
    then have "split_of mpi n r \<in> set ?xss" by simp
    then show "set (split_of mpi n r) \<subseteq> {..<n} \<and> distinct (split_of mpi n r)"
      using d s by (auto simp: distinct_concat_iff)
  qed
  show "\<forall>r<nprocs mpi. \<forall>s<nprocs mpi. r \<noteq> s \<longrightarrow> set (split_of mpi n r) \<inter> set (split_of mpi n s) = {}"
  proof (intro allI impI)
    fix r s assume rs: "r < nprocs mpi" "s < nprocs mpi" "r \<noteq> s"
    have nth: "\<And>k. k < nprocs mpi \<Longrightarrow> ?xss ! k = split_of mpi n k" by simp
    have len: "length ?xss = nprocs mpi" by simp
    show "set (split_of mpi n r) \<inter> set (split_of mpi n s) = {}"
    proof (cases "r < s")
      case True
      from distinct_concat_nth_disjoint[OF d True] rs(2) len
      have "set (?xss ! r) \<inter> set (?xss ! s) = {}" by simp
      then show ?thesis using nth[OF rs(1)] nth[OF rs(2)] by simp
    next
      case False
      with rs(3) have sr: "s < r" by simp
      from distinct_concat_nth_disjoint[OF d sr] rs(1) len
      have "set (?xss ! s) \<inter> set (?xss ! r) = {}" by simp
      then show ?thesis using nth[OF rs(1)] nth[OF rs(2)] by auto
    qed
  qed
qed


lemma array_split_range:
  assumes "set (split_of mpi n r) \<subseteq> {..<n}"
  shows "array_split mpi [0..<n] r = split_of mpi n r"
  using assms by (auto simp: array_split_def intro!: map_idI)

text \<open>
  The assembly of lines 314-324 in isolation. On the master, under the partition
  contract and with one message per other rank tagged by its sender, each of the length
  the master's partition of \<open>n\<close> gives that rank: the assembled array has length
  \<open>n\<close>, holds the shard of every rank r at exactly the positions the partition
  assigns to r, and is the same array for every arrival order of the messages (it equals
  the one obtained when they arrive in ascending rank order).
\<close>

lemma assemble_ref_phs_any_order:
  assumes "rank mpi = MASTER_PROCESS"
    and "0 < nprocs mpi"
    and "partition_complete mpi n"
    and "\<forall>r<nprocs mpi. length (shard r) = length (split_of mpi n r)"
    and "mset inbox = mset (map (\<lambda>r. (r, r, shard r)) [1..<nprocs mpi])"
  shows "\<exists>full. assemble_ref_phs mpi n (shard 0) inbox = Some (Inr full) \<and> length full = n \<and>
           (\<forall>r<nprocs mpi. \<forall>k<length (split_of mpi n r).
               full ! (split_of mpi n r ! k) = shard r ! k) \<and>
           assemble_ref_phs mpi n (shard 0) (map (\<lambda>r. (r, r, shard r)) [1..<nprocs mpi]) = Some (Inr full)"
proof -
  let ?P = "nprocs mpi"
  let ?idx = "split_of mpi n"
  let ?msgs = "map (\<lambda>r. (r, r, shard r)) [1..<?P]"
  note pc = partition_complete_shards[OF assms(3)]
  have split: "\<And>r. r < ?P \<Longrightarrow> array_split mpi [0..<n] r = ?idx r"
    using pc(1) by (simp add: array_split_range)
  have lens: "\<forall>r \<in> set [1..<?P]. length (shard r) = length (?idx r)" using assms(4) by simp
  have asm: "assemble_ref_phs mpi n (shard 0) ib = Some (put_shards mpi n shard [0..<?P] (replicate n (Some 0)))"
    if ib: "mset ib = mset ?msgs" for ib
  proof -
    have rs: "recv_shards mpi n [1..<?P] ib a = Some (put_shards mpi n shard [1..<?P] a)" for a
      by (rule recv_shards_any_order[OF _ ib lens]) simp
    then have rs': "recv_shards mpi n [Suc 0..<?P] ib a = Some (put_shards mpi n shard [Suc 0..<?P] a)" for a
      by simp
    have up: "[0..<?P] = 0 # [1..<?P]" using assms(2) by (simp add: upt_conv_Cons)
    show ?thesis
      unfolding assemble_ref_phs_def Let_def up put_shards.simps
      using assms(1) by (simp add: MASTER_PROCESS_def rs' split: sum.splits)
  qed
  have "\<exists>full. put_shards mpi n shard [0..<?P] (replicate n (Some 0)) = Inr full \<and> length full = n \<and>
           (\<forall>r \<in> set [0..<?P]. \<forall>k<length (?idx r). full ! (?idx r ! k) = shard r ! k) \<and>
           (\<forall>i. (\<forall>r \<in> set [0..<?P]. i \<notin> set (?idx r)) \<longrightarrow> full ! i = replicate n (Some 0) ! i)"
    using pc assms(4) split by (intro put_shards_props) auto
  then obtain full where
    f: "put_shards mpi n shard [0..<?P] (replicate n (Some 0)) = Inr full" "length full = n"
       "\<forall>r \<in> set [0..<?P]. \<forall>k<length (?idx r). full ! (?idx r ! k) = shard r ! k"
    by blast
  have "assemble_ref_phs mpi n (shard 0) inbox = Some (Inr full)"
    using asm[OF assms(5)] f(1) by simp
  moreover have "assemble_ref_phs mpi n (shard 0) ?msgs = Some (Inr full)"
    using asm[of ?msgs] f(1) by simp
  ultimately show ?thesis using f(2,3) by auto
qed

lemma assemble_ref_phs_example:
  "assemble_ref_phs master_of_3 5 (shard_example 0) [(2, 2, [Some 5]), (1, 1, [Some 3, Some 4])]
     = Some (Inr [Some 1, Some 2, Some 3, Some 4, Some 5])"
  by code_simp

text \<open>
  Claim C8 (the code departs from it). Two processes share the three interferograms of
  \<open>registry_example\<close>, none of them corrected yet, under method 2. Rank 1 estimates
  its shard \<open>[''c.tif'']\<close> of the three paths and sends the one value. The master, for
  which line 297 has replaced the three paths by the seven sorted keys of the registry,
  takes the first four keys as its own shard and allots the positions 4, 5 and 6 to
  rank 1: if every key opens as an interferogram it saves an array of length seven with
  the value of rank 1 at position 4, and if only the three files open it raises before
  any assembly. Without a registry the same run saves the three values, each at the
  position of its path.
\<close>

theorem ref_phase_estimation_master_rebinds_paths:
  "ref_phase_estimation (rank_of_2 1) ext_none_corrected [] [''a.tif'', ''b.tif'', ''c.tif'']
       (params_ref 4 7) (Some registry_example)
     = Some (Inr (Worker_sent [''c.tif''] [(1, 1, [Some 3])]))
   \<and> ref_phase_estimation (rank_of_2 0) ext_none_corrected [(1, 1, [Some 3])]
       [''a.tif'', ''b.tif'', ''c.tif''] (params_ref 4 7) (Some registry_example)
     = Some (Inr (Master_saved [''a.tif'', ''b.tif'', ''c.tif'', ''epochlist'']
                    [Some 1, Some 2, Some 3, Some 4, Some 3, Some 0, Some 0]))
   \<and> ref_phase_estimation (rank_of_2 0) ext_files_only [(1, 1, [Some 3])]
       [''a.tif'', ''b.tif'', ''c.tif''] (params_ref 4 7) (Some registry_example)
     = Some (Inl IOError)
   \<and> ref_phase_estimation (rank_of_2 0) ext_none_corrected [(1, 1, [Some 3])]
       [''a.tif'', ''b.tif'', ''c.tif''] (params_ref 4 7) None
     = Some (Inr (Master_saved [''a.tif'', ''b.tif''] [Some 1, Some 2, Some 3]))"
  by code_simp

subsection \<open>The skip check\<close>

lemma ref_phase_estimation_master_skips:
  assumes "rank mpi = MASTER_PROCESS" "items \<noteq> []"
    and "check_ref_phs_ifgs ext (sort (map fst items)) items = Inr True"
  shows "ref_phase_estimation mpi ext inbox ifg_paths params (Some items) = Some (Inr Skipped)"
  using assms by (simp add: ref_phase_estimation_def Let_def)

lemma estimate_and_assemble_never_skips:
  "estimate_and_assemble mpi ext inbox ifg_paths params \<noteq> Some (Inr Skipped)"
  by (auto simp: estimate_and_assemble_def Let_def
      split: option.splits prod.splits sum.splits if_splits)

lemma ref_phase_estimation_worker_never_skips:
  assumes "rank mpi \<noteq> MASTER_PROCESS"
  shows "ref_phase_estimation mpi ext inbox ifg_paths params preread_ifgs \<noteq> Some (Inr Skipped)"
  using assms estimate_and_assemble_never_skips
  by (auto simp: ref_phase_estimation_def Let_def split: option.splits prod.splits)

text \<open>
  Claim C5 (the code departs from it). With a registry at hand and a check that reports
  every interferogram as already corrected, the master returns at once, but rank 1 of a
  two-process run does not: the check of line 296 is guarded by
  \<open>mpiops.rank == MASTER_PROCESS\<close>, so rank 1 estimates the reference phase of its
  shard, rewrites that interferogram and sends the value to the master.
\<close>

theorem ref_phase_estimation_skip_only_on_master:
  "ref_phase_estimation (rank_of_2 0) ext_all_corrected [] [''a.tif'', ''b.tif'', ''c.tif'']
       (params_ref 4 7) (Some registry_example) = Some (Inr Skipped)
   \<and> ref_phase_estimation (rank_of_2 1) ext_all_corrected [] [''a.tif'', ''b.tif'', ''c.tif'']
       (params_ref 4 7) (Some registry_example)
     = Some (Inr (Worker_sent [''c.tif''] [(1, 1, [Some (1/2)])]))"
  by code_simp

section \<open>Proofs: the preread registry\<close>

lemma map_of_dict_setitem: "map_of (dict_setitem d k v) = (map_of d)(k \<mapsto> v)"
  by (induction d k v rule: dict_setitem.induct) auto

lemma keys_dict_setitem: "fst ` set (dict_setitem d k v) = insert k (fst ` set d)"
  by (induction d k v rule: dict_setitem.induct) auto

lemma distinct_dict_setitem:
  "distinct (map fst d) \<Longrightarrow> distinct (map fst (dict_setitem d k v))"
  by (induction d k v rule: dict_setitem.induct) (auto simp: keys_dict_setitem)

lemma fold_setitem_keys:
  "fst ` set (fold (\<lambda>(k, v) a. dict_setitem a k v) items acc) = fst ` set items \<union> fst ` set acc"
proof (induction items arbitrary: acc)
  case Nil then show ?case by simp
next
  case (Cons kv items)
  obtain k v where kv: "kv = (k, v)" by (cases kv)
  have "fst ` set (fold (\<lambda>(k, v) a. dict_setitem a k v) (kv # items) acc)
        = fst ` set items \<union> fst ` set (dict_setitem acc k v)"
    using Cons.IH kv by simp
  also have "\<dots> = fst ` set items \<union> insert k (fst ` set acc)"
    by (simp only: keys_dict_setitem)
  also have "\<dots> = fst ` set (kv # items) \<union> fst ` set acc"
    using kv by simp
  finally show ?case .
qed

lemma fold_setitem_distinct:
  "distinct (map fst acc) \<Longrightarrow> distinct (map fst (fold (\<lambda>(k, v) a. dict_setitem a k v) items acc))"
  by (induction items arbitrary: acc) (auto simp: distinct_dict_setitem)

lemma fold_setitem_functional:
  assumes "\<forall>kv \<in> set items. snd kv = f (fst kv)" "\<forall>kv \<in> set acc. snd kv = f (fst kv)"
  shows "\<forall>kv \<in> set (fold (\<lambda>(k, v) a. dict_setitem a k v) items acc). snd kv = f (fst kv)"
  using assms
proof (induction items arbitrary: acc)
  case Nil then show ?case by simp
next
  case (Cons kv items)
  obtain k v where kv: "kv = (k, v)" by (cases kv)
  have "\<forall>x \<in> set (dict_setitem acc k v). snd x = f (fst x)"
  proof
    fix x assume "x \<in> set (dict_setitem acc k v)"
    then have "x = (k, v) \<or> x \<in> set acc"
      by (induction acc k v rule: dict_setitem.induct) (auto split: if_splits)
    then show "snd x = f (fst x)" using Cons.prems kv by auto
  qed
  with Cons kv show ?case by simp
qed


lemma functional_map_of:
  assumes "\<forall>kv \<in> set d. snd kv = f (fst kv)"
  shows "map_of d k = (if k \<in> fst ` set d then Some (f k) else None)"
proof (cases "k \<in> fst ` set d")
  case True
  then obtain v where v: "map_of d k = Some v"
    by (metis domD dom_map_of_conv_image_fst)
  then have "(k, v) \<in> set d" by (rule map_of_SomeD)
  with assms have "v = f k" by auto
  with v True show ?thesis by simp
next
  case False
  then show ?thesis by (simp add: map_of_eq_None_iff)
qed

lemma process_ifgs_dict_items:
  "process_ifgs_dict mpi ext dest_tifs params =
   fold (\<lambda>(k, v) a. dict_setitem a k v)
     (map (\<lambda>d. (d, Preread (preread_of_ifg d (prepare_ifg ext d params))))
          (array_split mpi dest_tifs (rank mpi))) []"
  by (simp add: process_ifgs_dict_def fold_map comp_def)

lemma process_ifgs_dict_keys:
  "fst ` set (process_ifgs_dict mpi ext dest_tifs params) = set (array_split mpi dest_tifs (rank mpi))"
  unfolding process_ifgs_dict_items fold_setitem_keys by (simp add: image_image)

lemma process_ifgs_dict_functional:
  "\<forall>kv \<in> set (process_ifgs_dict mpi ext dest_tifs params).
     snd kv = Preread (preread_of_ifg (fst kv) (prepare_ifg ext (fst kv) params))"
  unfolding process_ifgs_dict_items by (rule fold_setitem_functional) auto

lemma join_dicts_keys: "fst ` set (join_dicts dicts) = (\<Union>d \<in> set dicts. fst ` set d)"
  unfolding join_dicts_def fold_setitem_keys by auto

lemma join_dicts_distinct: "distinct (map fst (join_dicts dicts))"
  unfolding join_dicts_def by (rule fold_setitem_distinct) simp

lemma join_dicts_functional:
  assumes "\<forall>d \<in> set dicts. \<forall>kv \<in> set d. snd kv = f (fst kv)"
  shows "\<forall>kv \<in> set (join_dicts dicts). snd kv = f (fst kv)"
  unfolding join_dicts_def using assms by (intro fold_setitem_functional) auto

lemma master_additions_ok:
  assumes "process_tifs \<noteq> []"
  shows "\<exists>el gt md wkt. master_additions ext process_tifs d =
           Inr (dict_setitem (dict_setitem (dict_setitem (dict_setitem d
                  ''epochlist'' (EpochList el)) ''gt'' (GeoTransform gt)) ''md'' (MetaData md))
                  ''wkt'' (Wkt wkt))"
  using assms
  by (cases process_tifs; cases "get_projection_info ext (hd process_tifs)")
     (auto simp: master_additions_def Let_def)


lemma partition_complete_union:
  assumes "partition_complete (process_of P split q) (length xs)"
  shows "(\<Union>r<P. set (array_split (process_of P split r) xs r)) = set xs"
proof -
  let ?n = "length xs"
  have "mset (concat (map (split ?n) [0..<P])) = mset [0..<?n]"
    using assms by (simp add: partition_complete_def process_of_def)
  then have "set (concat (map (split ?n) [0..<P])) = {..<?n}"
    by (metis atLeast_upt mset_eq_setD)
  then have u: "(\<Union>r<P. set (split ?n r)) = {..<?n}" by (simp add: atLeast0LessThan)
  have "(\<Union>r<P. set (array_split (process_of P split r) xs r)) = (\<lambda>i. xs ! i) ` (\<Union>r<P. set (split ?n r))"
    by (auto simp: array_split_def process_of_def)
  also have "\<dots> = set xs" unfolding u by (auto simp: set_conv_nth)
  finally show ?thesis .
qed

text \<open>
  Claim C7 (as amended). Under the partition contract, with a non-empty shard for the
  master and no path named like a global key: after \<open>create_ifg_dict\<close> every process
  holds the same registry; its keys are distinct and are those of all processes'
  path-to-PrereadIfg dictionaries (the paths of \<open>dest_tifs\<close>) plus exactly four global
  keys, \<open>epochlist\<close>, \<open>gt\<close>, \<open>md\<close> and \<open>wkt\<close>; it agrees with every process's
  dictionary on that dictionary's paths, and holds the epoch list, the geotransform, the
  metadata and the projection text under the four global keys.
\<close>

theorem create_ifg_dict_registry:
  assumes pc: "partition_complete (process_of P split MASTER_PROCESS) (length dest_tifs)"
    and ne: "split (length dest_tifs) MASTER_PROCESS \<noteq> []"
    and gk: "set dest_tifs \<inter> set global_keys = {}"
  shows "\<exists>preread_ifgs.
           create_ifg_dict P split ext dest_tifs params = replicate P (Some (Inr preread_ifgs)) \<and>
           distinct (map fst preread_ifgs) \<and>
           fst ` set preread_ifgs =
             (\<Union>r<P. fst ` set (process_ifgs_dict (process_of P split r) ext dest_tifs params))
             \<union> set global_keys \<and>
           fst ` set preread_ifgs = set dest_tifs \<union> set global_keys \<and>
           (\<forall>r<P. \<forall>k v.
               map_of (process_ifgs_dict (process_of P split r) ext dest_tifs params) k = Some v
               \<longrightarrow> map_of preread_ifgs k = Some v) \<and>
           (\<exists>el gt md wkt.
               map_of preread_ifgs ''epochlist'' = Some (EpochList el) \<and>
               map_of preread_ifgs ''gt'' = Some (GeoTransform gt) \<and>
               map_of preread_ifgs ''md'' = Some (MetaData md) \<and>
               map_of preread_ifgs ''wkt'' = Some (Wkt wkt))"
proof -
  let ?loc = "\<lambda>r. process_ifgs_dict (process_of P split r) ext dest_tifs params"
  let ?F = "\<lambda>k. Preread (preread_of_ifg k (prepare_ifg ext k params))"
  let ?joined = "join_dicts (map ?loc [0..<P])"
  have rk: "\<And>r. rank (process_of P split r) = r" by (simp add: process_of_def)
  have keys_loc: "\<And>r. fst ` set (?loc r) = set (array_split (process_of P split r) dest_tifs r)"
    using process_ifgs_dict_keys[of "process_of P split _" ext dest_tifs params] rk by simp
  have keys_joined: "fst ` set ?joined = (\<Union>r<P. fst ` set (?loc r))"
    unfolding join_dicts_keys by (auto simp: atLeast0LessThan)
  have union: "(\<Union>r<P. fst ` set (?loc r)) = set dest_tifs"
    unfolding keys_loc by (rule partition_complete_union[OF pc])
  have fun_joined: "\<forall>kv \<in> set ?joined. snd kv = ?F (fst kv)"
    by (rule join_dicts_functional) (auto simp: process_ifgs_dict_functional)
  have shard0: "array_split (process_of P split MASTER_PROCESS) dest_tifs MASTER_PROCESS \<noteq> []"
    using ne by (simp add: array_split_def process_of_def)
  from master_additions_ok[OF shard0, of ext ?joined] obtain el gt md wkt where
    dumped: "master_additions ext
               (array_split (process_of P split MASTER_PROCESS) dest_tifs MASTER_PROCESS) ?joined
             = Inr (dict_setitem (dict_setitem (dict_setitem (dict_setitem ?joined
                  ''epochlist'' (EpochList el)) ''gt'' (GeoTransform gt)) ''md'' (MetaData md))
                  ''wkt'' (Wkt wkt))"
    by blast
  let ?reg = "dict_setitem (dict_setitem (dict_setitem (dict_setitem ?joined
                  ''epochlist'' (EpochList el)) ''gt'' (GeoTransform gt)) ''md'' (MetaData md))
                  ''wkt'' (Wkt wkt)"
  have run: "create_ifg_dict P split ext dest_tifs params = replicate P (Some (Inr ?reg))"
    by (simp add: create_ifg_dict_def Let_def dumped map_replicate_const)
  have dist: "distinct (map fst ?reg)"
    by (intro distinct_dict_setitem join_dicts_distinct)
  have keys: "fst ` set ?reg = (\<Union>r<P. fst ` set (?loc r)) \<union> set global_keys"
    unfolding keys_dict_setitem keys_joined by (auto simp: global_keys_def)
  have mo: "map_of ?reg = (map_of ?joined)(''epochlist'' \<mapsto> EpochList el, ''gt'' \<mapsto> GeoTransform gt,
                ''md'' \<mapsto> MetaData md, ''wkt'' \<mapsto> Wkt wkt)"
    by (simp only: map_of_dict_setitem)
  have contained: "map_of ?reg k = Some v" if r: "r < P" and kv: "map_of (?loc r) k = Some v" for r k v
  proof -
    from kv have in_loc: "(k, v) \<in> set (?loc r)" by (rule map_of_SomeD)
    then have v: "v = ?F k" using process_ifgs_dict_functional[of "process_of P split r" ext dest_tifs params]
      by auto
    from in_loc have "k \<in> fst ` set (?loc r)" by (metis fst_conv image_eqI)
    with r have kj: "k \<in> fst ` set ?joined" unfolding keys_joined by blast
    then have "k \<in> set dest_tifs" using keys_joined union by simp
    with gk have ng: "k \<notin> set global_keys" by blast
    have "map_of ?joined k = Some (?F k)"
      using functional_map_of[OF fun_joined, of k] kj by simp
    with ng v show ?thesis unfolding mo by (simp add: global_keys_def)
  qed
  have globals: "map_of ?reg ''epochlist'' = Some (EpochList el) \<and>
               map_of ?reg ''gt'' = Some (GeoTransform gt) \<and>
               map_of ?reg ''md'' = Some (MetaData md) \<and>
               map_of ?reg ''wkt'' = Some (Wkt wkt)"
    unfolding mo by simp
  from run dist keys union contained globals show ?thesis by (intro exI[of _ ?reg]) auto
qed

theorem create_ifg_dict_registry_witness:
  "partition_complete (process_of 2 (block_split 2) MASTER_PROCESS) (length [''a.tif'', ''b.tif'', ''c.tif''])
   \<and> block_split 2 (length [''a.tif'', ''b.tif'', ''c.tif'']) MASTER_PROCESS \<noteq> []
   \<and> set [''a.tif'', ''b.tif'', ''c.tif''] \<inter> set global_keys = {}
   \<and> (\<exists>preread_ifgs.
         create_ifg_dict 2 (block_split 2) registry_ext_example [''a.tif'', ''b.tif'', ''c.tif'']
           (params_ref 0 0) = [Some (Inr preread_ifgs), Some (Inr preread_ifgs)]
         \<and> fst ` set preread_ifgs =
             {''a.tif'', ''b.tif'', ''c.tif'', ''epochlist'', ''gt'', ''md'', ''wkt''})"
proof -
  let ?tifs = "[''a.tif'', ''b.tif'', ''c.tif'']"
  have pc: "partition_complete (process_of 2 (block_split 2) MASTER_PROCESS) (length ?tifs)"
    by code_simp
  have ne: "block_split 2 (length ?tifs) MASTER_PROCESS \<noteq> []"
    by code_simp
  have gk: "set ?tifs \<inter> set global_keys = {}"
    by (simp add: global_keys_def)
  from create_ifg_dict_registry[OF pc ne gk, of registry_ext_example "params_ref 0 0"]
  obtain preread_ifgs where
    r: "create_ifg_dict 2 (block_split 2) registry_ext_example ?tifs (params_ref 0 0)
          = replicate 2 (Some (Inr preread_ifgs))"
       "fst ` set preread_ifgs = set ?tifs \<union> set global_keys"
    by blast
  from r(1) have "create_ifg_dict 2 (block_split 2) registry_ext_example ?tifs (params_ref 0 0)
          = [Some (Inr preread_ifgs), Some (Inr preread_ifgs)]"
    by (simp add: numeral_2_eq_2)
  moreover from r(2) have "fst ` set preread_ifgs =
             {''a.tif'', ''b.tif'', ''c.tif'', ''epochlist'', ''gt'', ''md'', ''wkt''}"
    by (auto simp: global_keys_def)
  ultimately show ?thesis using pc ne gk by blast
qed

text \<open>
  Against C7 as stated: in a run of two processes over three interferograms the registry
  every process returns has four keys besides the paths, \<open>md\<close> among them.
\<close>

theorem create_ifg_dict_three_keys_counterexample:
  "map (map_option (map_sum id (map fst)))
     (create_ifg_dict 2 (block_split 2) registry_ext_example [''a.tif'', ''b.tif'', ''c.tif'']
        (params_ref 0 0))
   = [Some (Inr [''a.tif'', ''b.tif'', ''c.tif'', ''epochlist'', ''gt'', ''md'', ''wkt'']),
      Some (Inr [''a.tif'', ''b.tif'', ''c.tif'', ''epochlist'', ''gt'', ''md'', ''wkt''])]"
  by code_simp

section \<open>Proofs: covariance against distance\<close>

subsection \<open>The surviving cells and the maximum\<close>

lemma concat_grid_flat:
  "concat (map (\<lambda>i. map (f i) [0..<c]) [0..<r]) = map (\<lambda>k. f (k div c) (k mod c)) [0..<r * c]"
proof (induction r)
  case 0 then show ?case by simp
next
  case (Suc r)
  have "map (\<lambda>k. f (k div c) (k mod c)) [0..<Suc r * c]
        = map (\<lambda>k. f (k div c) (k mod c)) [0..<r * c] @ map (\<lambda>k. f (k div c) (k mod c)) [r * c..<r * c + c]"
  proof -
    have "[0..<Suc r * c] = [0..<r * c] @ [r * c..<r * c + c]"
      using upt_add_eq_append[of 0 "r * c" c] by (simp add: add.commute)
    then show ?thesis by (simp only: map_append)
  qed
  also have "map (\<lambda>k. f (k div c) (k mod c)) [r * c..<r * c + c] = map (f r) [0..<c]"
  proof (rule nth_equalityI)
    show "length (map (\<lambda>k. f (k div c) (k mod c)) [r * c..<r * c + c]) = length (map (f r) [0..<c])"
      by simp
  next
    fix i assume "i < length (map (\<lambda>k. f (k div c) (k mod c)) [r * c..<r * c + c])"
    then have i: "i < c" by simp
    then have "(r * c + i) div c = r" "(r * c + i) mod c = i" by simp_all
    with i show "map (\<lambda>k. f (k div c) (k mod c)) [r * c..<r * c + c] ! i = map (f r) [0..<c] ! i"
      by simp
  qed
  finally show ?case using Suc by simp
qed

lemma r_dist_flat:
  "concat (r_dist_grid ifg (nrows ifg) (ncols ifg)) = map (cell_dist ifg) [0..<nrows ifg * ncols ifg]"
  unfolding r_dist_grid_def concat_grid_flat by (simp add: cell_dist_def distfact_def)

lemma maxdist_inscribed: "maxdist_of ifg = inscribed_radius ifg"
  by (simp add: maxdist_of_def inscribed_radius_def distfact_def min_def)

lemma py_max_Max: "xs \<noteq> [] \<Longrightarrow> py_max xs = Inr (Max (set xs))"
proof -
  assume "xs \<noteq> []"
  then obtain x rest where xs: "xs = x # rest" by (cases xs) auto
  have "fold max rest x = Max (set (x # rest))" by (rule Max.set_eq_fold[symmetric])
  with xs show ?thesis by (simp add: py_max_def)
qed

lemma finite_values_nonempty:
  "vs \<noteq> [] \<Longrightarrow> NaN \<notin> set vs \<Longrightarrow> concat (map nf_finite vs) \<noteq> []"
  by (cases vs) (auto elim: nf_finite.elims)

lemma np_max_value: "vs \<noteq> [] \<Longrightarrow> np_max vs = Inr (max_value vs)"
  using finite_values_nonempty[of vs]
  by (auto simp: np_max_def max_value_def list_ex_iff py_max_Max)


lemma length_concat_rect:
  "list_all (\<lambda>row. length row = c) g \<Longrightarrow> length (concat g) = length g * c"
  by (induction g) auto

lemma cvd_phase_shape:
  "length (cvd_phase ifg) = length (phase_data ifg)"
  "list_all (\<lambda>row. length row = c) (phase_data ifg) \<Longrightarrow> list_all (\<lambda>row. length row = c) (cvd_phase ifg)"
  by (auto simp: cvd_phase_def list_all_iff)

lemma phase_ncols:
  assumes "length ph = r" "list_all (\<lambda>row. length row = c) ph" "n = r * c"
  shows "reshape (r_dist_grid ifg (length ph) (case ph of [] \<Rightarrow> 0 | row # _ \<Rightarrow> length row)) n
         = reshape (r_dist_grid ifg r c) n"
proof (cases ph)
  case Nil
  with assms show ?thesis by (simp add: r_dist_grid_def)
next
  case (Cons row rest)
  with assms show ?thesis by simp
qed


lemma take_as_map: "take m xs = map (\<lambda>k. xs ! k) [0..<min m (length xs)]"
  by (rule nth_equalityI) auto

lemma cvd_points_eq:
  assumes "well_shaped ifg grid"
  shows "cvd_points ifg (cvd_phase ifg) grid =
         Inr (map (\<lambda>k. (cell_dist ifg k, concat grid ! k)) (surviving_cells ifg))"
proof -
  let ?n = "num_cells ifg"
  let ?T = "nat \<lceil>real ?n / 2\<rceil> + nrows ifg"
  let ?m = "min ?T ?n"
  let ?rs = "map (cell_dist ifg) [0..<?n]"
  let ?acg = "concat grid"
  from assms have n: "?n = nrows ifg * ncols ifg"
    and ph: "length (phase_data ifg) = nrows ifg" "list_all (\<lambda>row. length row = ncols ifg) (phase_data ifg)"
    and gr: "length grid = nrows ifg" "list_all (\<lambda>row. length row = ncols ifg) grid"
    by (simp_all add: well_shaped_def)
  have ph': "length (cvd_phase ifg) = nrows ifg" "list_all (\<lambda>row. length row = ncols ifg) (cvd_phase ifg)"
    using ph(1) cvd_phase_shape(1)[of ifg] cvd_phase_shape(2)[OF ph(2)] by simp_all
  have r1: "reshape (r_dist_grid ifg (length (cvd_phase ifg))
                (case cvd_phase ifg of [] \<Rightarrow> 0 | row # _ \<Rightarrow> length row)) ?n = Inr ?rs"
    unfolding phase_ncols[OF ph' n] by (simp add: reshape_def r_dist_flat n)
  have lg: "length ?acg = ?n" using length_concat_rect[OF gr(2)] gr(1) n by simp
  then have r2: "reshape grid ?n = Inr ?acg" by (simp add: reshape_def)
  have t1: "take ?T ?rs = map (cell_dist ifg) [0..<?m]"
    by (rule nth_equalityI) auto
  have t2: "take (length (take ?T ?rs)) ?acg = map (\<lambda>k. ?acg ! k) [0..<?m]"
    unfolding take_as_map[of _ ?acg] lg by (simp add: min.commute min.left_commute)
  have z: "zip (take ?T ?rs) (take (length (take ?T ?rs)) ?acg)
           = map (\<lambda>k. (cell_dist ifg k, ?acg ! k)) [0..<?m]"
    unfolding t2 unfolding t1 by (simp add: zip_map_map zip_same_conv_map)
  have f: "filter (\<lambda>(r, a). r < maxdist_of ifg) (map (\<lambda>k. (cell_dist ifg k, ?acg ! k)) [0..<?m])
           = map (\<lambda>k. (cell_dist ifg k, ?acg ! k)) (filter (\<lambda>k. cell_dist ifg k < inscribed_radius ifg) [0..<?m])"
    by (simp add: filter_map comp_def maxdist_inscribed)
  show ?thesis
    unfolding cvd_points_def Let_def r1 r2 sum.case z f surviving_cells_def truncated_cells_def ..
qed

lemma cvd_points_max:
  assumes "well_shaped ifg grid"
  shows "\<exists>points. cvd_points ifg (cvd_phase ifg) grid = Inr points \<and>
           (points = [] \<longleftrightarrow> surviving_cells ifg = []) \<and>
           map snd points = map (\<lambda>k. concat grid ! k) (surviving_cells ifg) \<and>
           (points \<noteq> [] \<longrightarrow>
              np_max (map snd points) = Inr (max_value (map (\<lambda>k. concat grid ! k) (surviving_cells ifg))))"
proof -
  define points where "points = map (\<lambda>k. (cell_dist ifg k, concat grid ! k)) (surviving_cells ifg)"
  have p: "cvd_points ifg (cvd_phase ifg) grid = Inr points"
    unfolding points_def by (rule cvd_points_eq[OF assms])
  have e: "(points = []) = (surviving_cells ifg = [])" by (simp add: points_def)
  have vals: "map snd points = map (\<lambda>k. concat grid ! k) (surviving_cells ifg)"
    by (simp add: points_def comp_def)
  have m: "np_max (map snd points) = Inr (max_value (map (\<lambda>k. concat grid ! k) (surviving_cells ifg)))"
    if ne: "points \<noteq> []"
  proof -
    from ne have "map snd points \<noteq> []" by simp
    then show ?thesis unfolding vals[symmetric] by (rule np_max_value)
  qed
  from p e vals m show ?thesis by blast
qed

lemma sqrt_less_sq:
  assumes "0 \<le> y"
  shows "(sqrt s < y) = (s < y\<^sup>2)"
proof -
  have e: "sqrt (y\<^sup>2) = y" using assms by simp
  show ?thesis using real_sqrt_less_iff[of s "y\<^sup>2"] unfolding e .
qed


lemma cell_dist_less:
  assumes "0 \<le> R"
  shows "(cell_dist ifg k < R) =
           ((real_of_int (int (k mod ncols ifg) - int (x_centre ifg)) * x_size ifg)\<^sup>2 +
            (real_of_int (int (k div ncols ifg) - int (y_centre ifg)) * y_size ifg)\<^sup>2
            < (1000 * R)\<^sup>2)"
proof -
  have y: "0 \<le> 1000 * R" using assms by simp
  have "(sqrt s / 1000 < R) = (sqrt s < 1000 * R)" for s by (simp add: field_simps)
  then show ?thesis unfolding cell_dist_def sqrt_less_sq[OF y] .
qed


lemma radius44: "inscribed_radius ifg44 = 2"
  by (simp add: inscribed_radius_def ifg44_def)


lemma trunc44: "truncated_cells ifg44 = [0, 1, 2, 3, 4, 5, 6, 7, 8, 9, 10, 11]"
  by (simp add: truncated_cells_def ifg44_def upt_rec)


lemma surv44: "surviving_cells ifg44 = [5, 6, 7, 9, 10, 11]"
  unfolding surviving_cells_def trunc44 radius44
  by (simp add: cell_dist_less ifg44_def)



lemma cvd_snd_unfold:
  assumes "nan_and_mm_convert ext (cvd_ifg ext ifg_path write_vals) params = ifg"
    and "cvd_points ifg (cvd_phase ifg) (autocorr_grid ext (cvd_phase ifg)) = Inr points"
  shows "snd (cvd ext ifg_path params calc_alpha write_vals save_acg) =
     (case (if save_acg then map_sum id Some (save_cvd_data points ifg_path) else Inr None) of
        Inl e \<Rightarrow> Inl e
      | Inr saved \<Rightarrow>
          (case np_max (map snd points) of
             Inl e \<Rightarrow> Inl e
           | Inr maxvar \<Rightarrow>
               (case (if calc_alpha
                      then map_sum id Some (cvd_alpha ext (bin_width_of ifg) points)
                      else Inr None) of
                  Inl e \<Rightarrow> Inl e
                | Inr alpha \<Rightarrow>
                    if write_vals then
                      (case snd (add_metadata ext ifg maxvar alpha) of
                         Inl e \<Rightarrow> Inl e
                       | Inr u \<Rightarrow> Inr (saved, maxvar, alpha))
                    else Inr (saved, maxvar, alpha))))"
proof -
  define S where "S = (if save_acg then map_sum id Some (save_cvd_data points ifg_path) else Inr None)"
  define M where "M = np_max (map snd points)"
  define A where "A = (if calc_alpha
                      then map_sum id Some (cvd_alpha ext (bin_width_of ifg) points)
                      else Inr None)"
  define W where "W = add_metadata ext ifg"
  have c: "cvd ext ifg_path params calc_alpha write_vals save_acg =
     (case S of
        Inl e \<Rightarrow> (ifg, Inl e)
      | Inr saved \<Rightarrow>
          (case M of
             Inl e \<Rightarrow> (ifg, Inl e)
           | Inr maxvar \<Rightarrow>
               (case A of
                  Inl e \<Rightarrow> (ifg, Inl e)
                | Inr alpha \<Rightarrow>
                    if write_vals then
                      (case W maxvar alpha of
                         (ifg', Inl e) \<Rightarrow> (ifg', Inl e)
                       | (ifg', Inr u) \<Rightarrow> (ifg', Inr (saved, maxvar, alpha)))
                    else (ifg, Inr (saved, maxvar, alpha)))))"
    unfolding cvd_def Let_def assms(1) assms(2) sum.case S_def M_def A_def W_def ..
  have "snd (cvd ext ifg_path params calc_alpha write_vals save_acg) =
     (case S of
        Inl e \<Rightarrow> Inl e
      | Inr saved \<Rightarrow>
          (case M of
             Inl e \<Rightarrow> Inl e
           | Inr maxvar \<Rightarrow>
               (case A of
                  Inl e \<Rightarrow> Inl e
                | Inr alpha \<Rightarrow>
                    if write_vals then
                      (case snd (W maxvar alpha) of
                         Inl e \<Rightarrow> Inl e
                       | Inr u \<Rightarrow> Inr (saved, maxvar, alpha))
                    else Inr (saved, maxvar, alpha))))"
    unfolding c by (simp split: sum.splits prod.splits)
  then show ?thesis unfolding S_def M_def A_def W_def .
qed




lemma cvd_plain_result:
  assumes "nan_and_mm_convert ext (cvd_ifg ext ifg_path False) params = ifg"
    and "autocorr_grid ext (cvd_phase ifg) = grid"
    and "well_shaped ifg grid"
    and "surviving_cells ifg \<noteq> []"
  shows "snd (cvd ext ifg_path params False False False) =
           Inr (None, max_value (map (\<lambda>k. concat grid ! k) (surviving_cells ifg)), None)"
proof -
  from cvd_points_max[OF assms(3)] obtain points where
    p: "cvd_points ifg (cvd_phase ifg) grid = Inr points"
       "(points = []) = (surviving_cells ifg = [])"
       "points \<noteq> [] \<longrightarrow>
          np_max (map snd points) = Inr (max_value (map (\<lambda>k. concat grid ! k) (surviving_cells ifg)))"
    by blast
  have p1: "cvd_points ifg (cvd_phase ifg) (autocorr_grid ext (cvd_phase ifg)) = Inr points"
    unfolding assms(2) by (rule p(1))
  from p(2,3) assms(4)
  have "np_max (map snd points) = Inr (max_value (map (\<lambda>k. concat grid ! k) (surviving_cells ifg)))"
    by simp
  then show ?thesis
    unfolding cvd_snd_unfold[OF assms(1) p1] by simp
qed


lemma autocorr44: "autocorr_circular phase44 = grid44"
  by code_simp


lemma convert44: "convert_example ifg44 (params_ref 4 7) = ifg44"
  by (simp add: convert_example_def ifg44_def params_ref_def)




lemma well_shaped44: "well_shaped ifg44 grid44"
  by (simp add: well_shaped_def ifg44_def grid44_def phase44_def)





subsection \<open>The state of the interferogram object\<close>

lemma cvd_state_without_write:
  "fst (cvd ext ifg_path params calc_alpha False save_acg)
   = nan_and_mm_convert ext (cvd_ifg ext ifg_path False) params"
  unfolding cvd_def Let_def by (simp split: sum.splits)

lemma cvd_state_with_write:
  assumes "nan_and_mm_convert ext (cvd_ifg ext ifg_path True) params = ifg"
    and "cvd ext ifg_path params calc_alpha True save_acg = (ifg', Inr (saved, maxvar, alpha))"
  shows "write_modified_phase ext (add_metadata_md ext ifg maxvar alpha) = Inr ifg'"
  using assms(2) unfolding cvd_def Let_def assms(1) add_metadata_def
  by (simp split: sum.splits prod.splits)

lemma cvd_written_state:
  assumes "\<forall>i i'. write_modified_phase ext i = Inr i' \<longrightarrow>
                   phase_data i' = phase_data i \<and> meta_data i' = meta_data i"
    and "cvd ext ifg_path params calc_alpha True save_acg = (ifg', Inr (saved, maxvar, alpha))"
  shows "phase_data ifg' = phase_data (nan_and_mm_convert ext (cvd_ifg ext ifg_path True) params) \<and>
         meta_data ifg' =
           (meta_data (nan_and_mm_convert ext (cvd_ifg ext ifg_path True) params))
             (PYRATE_MAXVAR ext \<mapsto> str_npfloat ext maxvar, PYRATE_ALPHA ext \<mapsto> str_alpha ext alpha)"
proof -
  let ?ifg = "nan_and_mm_convert ext (cvd_ifg ext ifg_path True) params"
  from cvd_state_with_write[OF refl assms(2)]
  have "write_modified_phase ext (add_metadata_md ext ?ifg maxvar alpha) = Inr ifg'" .
  with assms(1) have "phase_data ifg' = phase_data (add_metadata_md ext ?ifg maxvar alpha)"
    "meta_data ifg' = meta_data (add_metadata_md ext ?ifg maxvar alpha)" by blast+
  then show ?thesis by (simp add: add_metadata_md_def Let_def)
qed

text \<open>
  Claim C4 (corrected). \<open>cvd\<close> first applies the NaN and unit conversion to the
  interferogram object. Without \<open>write_vals\<close> it leaves the object exactly in the
  converted state. With \<open>write_vals\<close>, if it returns and the write-back itself leaves
  phase data and metadata of the object as they are, the phase data is that of the
  converted object, and the metadata is that of the converted object with exactly the
  two keys for \<open>maxvar\<close> and \<open>alpha\<close> set to their strings.
\<close>

theorem cvd_frame:
  assumes "\<forall>i i'. write_modified_phase ext i = Inr i' \<longrightarrow>
                   phase_data i' = phase_data i \<and> meta_data i' = meta_data i"
  shows "fst (cvd ext ifg_path params calc_alpha False save_acg)
           = nan_and_mm_convert ext (cvd_ifg ext ifg_path False) params
       \<and> (\<forall>ifg' saved maxvar alpha.
            cvd ext ifg_path params calc_alpha True save_acg = (ifg', Inr (saved, maxvar, alpha)) \<longrightarrow>
            phase_data ifg' = phase_data (nan_and_mm_convert ext (cvd_ifg ext ifg_path True) params) \<and>
            meta_data ifg' =
              (meta_data (nan_and_mm_convert ext (cvd_ifg ext ifg_path True) params))
                (PYRATE_MAXVAR ext \<mapsto> str_npfloat ext maxvar, PYRATE_ALPHA ext \<mapsto> str_alpha ext alpha))"
  using cvd_state_without_write cvd_written_state[OF assms] by blast

lemma write_example_keeps:
  "\<forall>i i'. write_modified_phase cvd_ext_example i = Inr i' \<longrightarrow>
           phase_data i' = phase_data i \<and> meta_data i' = meta_data i"
  by (auto simp: cvd_ext_example_def split: if_splits)

lemma cvd_written_result44:
  "snd (cvd cvd_ext_example (IfgPath ''a.tif'') (params_ref 4 7) False True False)
     = Inr (None, Float 1, None)"
proof -
  define ifg where "ifg = ifg44\<lparr>is_read_only := False\<rparr>"
  have c: "nan_and_mm_convert cvd_ext_example (cvd_ifg cvd_ext_example (IfgPath ''a.tif'') True) (params_ref 4 7)
           = ifg"
    by (simp add: cvd_ext_example_def cvd_ifg_def convert_example_def ifg_def ifg44_def params_ref_def)
  have ph: "cvd_phase ifg = phase44" by (simp add: cvd_phase_def ifg_def ifg44_def phase44_def)
  have g: "autocorr_grid cvd_ext_example (cvd_phase ifg) = grid44"
    by (simp add: cvd_ext_example_def ph autocorr44)
  have ws: "well_shaped ifg grid44"
    using well_shaped44 by (simp add: well_shaped_def ifg_def)
  have sv: "surviving_cells ifg = surviving_cells ifg44"
    by (simp add: surviving_cells_def truncated_cells_def cell_dist_def inscribed_radius_def ifg_def)
  from cvd_points_max[OF ws] obtain points where
    p: "cvd_points ifg (cvd_phase ifg) grid44 = Inr points"
       "(points = []) = (surviving_cells ifg = [])"
       "points \<noteq> [] \<longrightarrow>
          np_max (map snd points) = Inr (max_value (map (\<lambda>k. concat grid44 ! k) (surviving_cells ifg)))"
    by blast
  have p1: "cvd_points ifg (cvd_phase ifg) (autocorr_grid cvd_ext_example (cvd_phase ifg)) = Inr points"
    unfolding g by (rule p(1))
  have m: "max_value (map (\<lambda>k. concat grid44 ! k) (surviving_cells ifg)) = Float 1"
    unfolding sv surv44 by (simp add: max_value_def grid44_def)
  have "points \<noteq> []" using p(2) sv surv44 by simp
  with p(3) m have mx: "np_max (map snd points) = Inr (Float 1)" by simp
  have w: "snd (add_metadata cvd_ext_example ifg (Float 1) None) = Inr ()"
    by (simp add: add_metadata_def add_metadata_md_def cvd_ext_example_def ifg_def Let_def)
  show ?thesis
    unfolding cvd_snd_unfold[OF c p1] mx by (simp add: w)
qed

theorem cvd_frame_witness:
  "snd (cvd cvd_ext_example (IfgPath ''a.tif'') (params_ref 4 7) False True False)
     = Inr (None, Float 1, None)
   \<and> phase_data (fst (cvd cvd_ext_example (IfgPath ''a.tif'') (params_ref 4 7) False True False))
     = phase44
   \<and> meta_data (fst (cvd cvd_ext_example (IfgPath ''a.tif'') (params_ref 4 7) False True False))
     = [''CVD_MAXVAR'' \<mapsto> ''1.0'', ''CVD_ALPHA'' \<mapsto> ''None'']
   \<and> fst (cvd cvd_ext_example (IfgObject ifg44) (params_ref 4 7) False False False) = ifg44"
proof -
  let ?run = "cvd cvd_ext_example (IfgPath ''a.tif'') (params_ref 4 7) False True False"
  have r: "?run = (fst ?run, Inr (None, Float 1, None))"
    using cvd_written_result44 by (cases ?run) simp
  have conv: "nan_and_mm_convert cvd_ext_example (cvd_ifg cvd_ext_example (IfgPath ''a.tif'') True) (params_ref 4 7)
           = ifg44\<lparr>is_read_only := False\<rparr>"
    by (simp add: cvd_ext_example_def cvd_ifg_def convert_example_def ifg44_def params_ref_def)
  have conv0: "nan_and_mm_convert cvd_ext_example (cvd_ifg cvd_ext_example (IfgObject ifg44) False) (params_ref 4 7)
           = ifg44"
    by (simp add: cvd_ext_example_def cvd_ifg_def convert44)
  note t = cvd_frame[OF write_example_keeps]
  from t[where ifg_path = "IfgPath ''a.tif''" and params = "params_ref 4 7" and calc_alpha = False
          and save_acg = False] r
  have "phase_data (fst ?run) = phase_data (ifg44\<lparr>is_read_only := False\<rparr>) \<and>
        meta_data (fst ?run) =
          (meta_data (ifg44\<lparr>is_read_only := False\<rparr>))
            (PYRATE_MAXVAR cvd_ext_example \<mapsto> str_npfloat cvd_ext_example (Float 1),
             PYRATE_ALPHA cvd_ext_example \<mapsto> str_alpha cvd_ext_example None)"
    unfolding conv by blast
  then have a: "phase_data (fst ?run) = phase44"
    and b: "meta_data (fst ?run) = [''CVD_MAXVAR'' \<mapsto> ''1.0'', ''CVD_ALPHA'' \<mapsto> ''None'']"
    by (simp_all add: ifg44_def cvd_ext_example_def str_npfloat_def str_alpha_def str_float_example_def)
  from t[where ifg_path = "IfgObject ifg44" and params = "params_ref 4 7" and calc_alpha = False
          and save_acg = False]
  have d: "fst (cvd cvd_ext_example (IfgObject ifg44) (params_ref 4 7) False False False) = ifg44"
    unfolding conv0 by blast
  from cvd_written_result44 a b d show ?thesis by blast
qed

lemma autocorr44_radians:
  "autocorr_circular (map (map (map_option (\<lambda>v. v * mm_per_radian))) phase44) =
     [[Float 0, Float 0, Float 0, Float 0], [Float 0, Float 0, Float 0, Float 0],
      [Float 0, Float 0, Float (81 / 4), Float 0], [Float 0, Float 0, Float 0, Float 0]]"
  by code_simp

text \<open>
  Claim C4 as worded has the phase data unchanged. An interferogram object still in
  radians is converted by \<open>cvd\<close>: without \<open>write_vals\<close> the caller's object holds
  the phase in millimetres afterwards, and with \<open>write_vals\<close> the converted phase is
  what is written back to the file behind the path.
\<close>

theorem cvd_converts_phase_counterexample:
  "phase_data ifg44_radians ! 0 ! 0 = Some 1
   \<and> phase_data (fst (cvd cvd_ext_example (IfgObject ifg44_radians) (params_ref 4 7) False False False))
       ! 0 ! 0 = Some (9 / 2)
   \<and> snd (cvd cvd_ext_example (IfgObject ifg44_radians) (params_ref 4 7) False False False)
       = Inr (None, Float (81 / 4), None)
   \<and> phase_data (fst (cvd cvd_ext_example (IfgPath ''radians.tif'') (params_ref 4 7) False True False))
       ! 0 ! 0 = Some (9 / 2)
   \<and> snd (cvd cvd_ext_example (IfgPath ''radians.tif'') (params_ref 4 7) False True False)
       = Inr (None, Float (81 / 4), None)"
proof -
  define ifg where "ifg = convert_example ifg44_radians (params_ref 4 7)"
  define grid where "grid = [[Float 0, Float 0, Float 0, Float 0], [Float 0, Float 0, Float 0, Float 0],
      [Float 0, Float 0, Float (81 / 4), Float 0], [Float 0, Float 0, Float 0, Float (0::real)]]"
  have ifg: "ifg = ifg44\<lparr>phase_data := map (map (map_option (\<lambda>v. v * mm_per_radian))) phase44\<rparr>"
    by (simp add: ifg_def convert_example_def ifg44_radians_def ifg44_def params_ref_def)
  have c: "nan_and_mm_convert cvd_ext_example (cvd_ifg cvd_ext_example (IfgObject ifg44_radians) False)
             (params_ref 4 7) = ifg"
    by (simp add: cvd_ext_example_def cvd_ifg_def ifg_def)
  have ph: "cvd_phase ifg = map (map (map_option (\<lambda>v. v * mm_per_radian))) phase44"
    by (simp add: cvd_phase_def ifg ifg44_def phase44_def)
  have g: "autocorr_grid cvd_ext_example (cvd_phase ifg) = grid"
    unfolding ph grid_def by (simp add: cvd_ext_example_def autocorr44_radians)
  have ws: "well_shaped ifg grid"
    by (simp add: well_shaped_def ifg ifg44_def grid_def phase44_def)
  have sv: "surviving_cells ifg = surviving_cells ifg44"
    by (simp add: surviving_cells_def truncated_cells_def cell_dist_def inscribed_radius_def ifg)
  have ne: "surviving_cells ifg \<noteq> []" by (simp add: sv surv44)
  have m: "max_value (map (\<lambda>k. concat grid ! k) (surviving_cells ifg)) = Float (81 / 4)"
    unfolding sv surv44 by (simp add: max_value_def grid_def)
  have r1: "snd (cvd cvd_ext_example (IfgObject ifg44_radians) (params_ref 4 7) False False False)
       = Inr (None, Float (81 / 4), None)"
    using cvd_plain_result[OF c g ws ne] unfolding m .
  have s1: "phase_data (fst (cvd cvd_ext_example (IfgObject ifg44_radians) (params_ref 4 7) False False False))
       ! 0 ! 0 = Some (9 / 2)"
    unfolding cvd_state_without_write c by (simp add: ifg phase44_def mm_per_radian_def)
  have o: "phase_data ifg44_radians ! 0 ! 0 = Some 1"
    by (simp add: ifg44_radians_def ifg44_def phase44_def)
  define ifgw where "ifgw = ifg\<lparr>data_path := ''radians.tif'', is_read_only := False\<rparr>"
  have cw: "nan_and_mm_convert cvd_ext_example (cvd_ifg cvd_ext_example (IfgPath ''radians.tif'') True)
             (params_ref 4 7) = ifgw"
    by (simp add: cvd_ext_example_def cvd_ifg_def ifgw_def ifg convert_example_def ifg44_radians_def
        ifg44_def params_ref_def)
  have phw: "cvd_phase ifgw = cvd_phase ifg" by (simp add: cvd_phase_def ifgw_def)
  have gw: "autocorr_grid cvd_ext_example (cvd_phase ifgw) = grid" unfolding phw by (rule g)
  have wsw: "well_shaped ifgw grid" using ws by (simp add: well_shaped_def ifgw_def)
  have svw: "surviving_cells ifgw = surviving_cells ifg"
    by (simp add: surviving_cells_def truncated_cells_def cell_dist_def inscribed_radius_def ifgw_def)
  from cvd_points_max[OF wsw] obtain points where
    p: "cvd_points ifgw (cvd_phase ifgw) grid = Inr points"
       "(points = []) = (surviving_cells ifgw = [])"
       "points \<noteq> [] \<longrightarrow>
          np_max (map snd points) = Inr (max_value (map (\<lambda>k. concat grid ! k) (surviving_cells ifgw)))"
    by blast
  have p1: "cvd_points ifgw (cvd_phase ifgw) (autocorr_grid cvd_ext_example (cvd_phase ifgw)) = Inr points"
    unfolding gw by (rule p(1))
  have "points \<noteq> []" using p(2) svw ne by simp
  with p(3) m svw have mx: "np_max (map snd points) = Inr (Float (81 / 4))" by simp
  have w: "add_metadata cvd_ext_example ifgw (Float (81 / 4)) None
           = (add_metadata_md cvd_ext_example ifgw (Float (81 / 4)) None, Inr ())"
    by (simp add: add_metadata_def add_metadata_md_def cvd_ext_example_def ifgw_def Let_def)
  have r2: "snd (cvd cvd_ext_example (IfgPath ''radians.tif'') (params_ref 4 7) False True False)
       = Inr (None, Float (81 / 4), None)"
    unfolding cvd_snd_unfold[OF cw p1] mx by (simp add: w)
  have "cvd cvd_ext_example (IfgPath ''radians.tif'') (params_ref 4 7) False True False
        = (fst (cvd cvd_ext_example (IfgPath ''radians.tif'') (params_ref 4 7) False True False),
           Inr (None, Float (81 / 4), None))"
    using r2 by (cases "cvd cvd_ext_example (IfgPath ''radians.tif'') (params_ref 4 7) False True False") simp
  from cvd_written_state[OF write_example_keeps this]
  have "phase_data (fst (cvd cvd_ext_example (IfgPath ''radians.tif'') (params_ref 4 7) False True False))
        = phase_data ifgw"
    unfolding cw by blast
  then have s2: "phase_data (fst (cvd cvd_ext_example (IfgPath ''radians.tif'') (params_ref 4 7) False True False))
       ! 0 ! 0 = Some (9 / 2)"
    by (simp add: ifgw_def ifg phase44_def mm_per_radian_def)
  from o s1 r1 s2 r2 show ?thesis by blast
qed
end
